theory Spec2Isabelle
  imports Complex_Main "HOL-Library.Word" "HOL-Library.Multiset"
begin

section \<open>Data model of partners.cc\<close>

subsection \<open>Doubles\<close>

text \<open>
  A C++ \<open>double\<close> is modelled with the special values of IEEE 754 written out: a finite
  value, the two infinities and NaN. The result of an operation on finite values is the
  exact real result (rounding and the sign of zero are not modelled); an operation with
  a special operand or an exceptional result follows IEEE 754: NaN propagates,
  \<open>0 / 0\<close>, \<open>inf - inf\<close>, \<open>0 * inf\<close> and \<open>inf / inf\<close> are NaN, \<open>x / 0\<close> is an infinity
  for \<open>x \<noteq> 0\<close>, and every comparison with NaN is false.
\<close>

datatype double = Finite real | PlusInf | MinusInf | NaN

fun dneg :: "double \<Rightarrow> double" where
  "dneg (Finite a) = Finite (- a)"
| "dneg PlusInf = MinusInf"
| "dneg MinusInf = PlusInf"
| "dneg NaN = NaN"

fun dadd :: "double \<Rightarrow> double \<Rightarrow> double" where
  "dadd (Finite a) (Finite b) = Finite (a + b)"
| "dadd (Finite a) PlusInf = PlusInf"
| "dadd (Finite a) MinusInf = MinusInf"
| "dadd PlusInf (Finite b) = PlusInf"
| "dadd PlusInf PlusInf = PlusInf"
| "dadd PlusInf MinusInf = NaN"
| "dadd MinusInf (Finite b) = MinusInf"
| "dadd MinusInf MinusInf = MinusInf"
| "dadd MinusInf PlusInf = NaN"
| "dadd NaN y = NaN"
| "dadd x NaN = NaN"

definition dsub :: "double \<Rightarrow> double \<Rightarrow> double" where
  "dsub x y = dadd x (dneg y)"

fun dmul :: "double \<Rightarrow> double \<Rightarrow> double" where
  "dmul (Finite a) (Finite b) = Finite (a * b)"
| "dmul (Finite a) PlusInf = (if a = 0 then NaN else if 0 < a then PlusInf else MinusInf)"
| "dmul (Finite a) MinusInf = (if a = 0 then NaN else if 0 < a then MinusInf else PlusInf)"
| "dmul PlusInf (Finite b) = (if b = 0 then NaN else if 0 < b then PlusInf else MinusInf)"
| "dmul MinusInf (Finite b) = (if b = 0 then NaN else if 0 < b then MinusInf else PlusInf)"
| "dmul PlusInf PlusInf = PlusInf"
| "dmul PlusInf MinusInf = MinusInf"
| "dmul MinusInf PlusInf = MinusInf"
| "dmul MinusInf MinusInf = PlusInf"
| "dmul NaN y = NaN"
| "dmul x NaN = NaN"

fun ddiv :: "double \<Rightarrow> double \<Rightarrow> double" where
  "ddiv (Finite a) (Finite b) =
     (if b \<noteq> 0 then Finite (a / b)
      else if a = 0 then NaN else if 0 < a then PlusInf else MinusInf)"
| "ddiv (Finite a) PlusInf = Finite 0"
| "ddiv (Finite a) MinusInf = Finite 0"
| "ddiv PlusInf (Finite b) = (if 0 \<le> b then PlusInf else MinusInf)"
| "ddiv MinusInf (Finite b) = (if 0 \<le> b then MinusInf else PlusInf)"
| "ddiv PlusInf PlusInf = NaN"
| "ddiv PlusInf MinusInf = NaN"
| "ddiv MinusInf PlusInf = NaN"
| "ddiv MinusInf MinusInf = NaN"
| "ddiv NaN y = NaN"
| "ddiv x NaN = NaN"

fun dless :: "double \<Rightarrow> double \<Rightarrow> bool" where
  "dless (Finite a) (Finite b) = (a < b)"
| "dless (Finite a) PlusInf = True"
| "dless MinusInf (Finite b) = True"
| "dless MinusInf PlusInf = True"
| "dless x y = False"

text \<open>The conversion \<open>(double) n\<close> of an \<open>unsigned\<close>.\<close>

definition of_unsigned :: "32 word \<Rightarrow> double" where
  "of_unsigned w = Finite (real (unat w))"

subsection \<open>Errors\<close>

text \<open>
  \<open>OutOfRange\<close> is the \<open>std::out_of_range\<close> that \<open>ParameterMap::at\<close> throws for a missing
  key; nothing catches it. \<open>IterationCountNotRepresentable\<close> is the conversion of a
  \<open>double\<close> that is NaN, infinite or outside the range of \<open>unsigned\<close> to \<open>unsigned\<close>, and
  \<open>StageIndexOutOfBounds\<close> a write behind the six-element array of \<open>report\<close>: both are
  undefined behaviour in C++, and the model stops there.
\<close>

datatype error = OutOfRange | IterationCountNotRepresentable | StageIndexOutOfBounds

definition bind_e :: "error + 'a \<Rightarrow> ('a \<Rightarrow> error + 'b) \<Rightarrow> error + 'b" where
  "bind_e m f = (case m of Inl e \<Rightarrow> Inl e | Inr x \<Rightarrow> f x)"

text \<open>
  \<open>unsigned n = d\<close>: the fractional part is discarded, and the truncated value has to be
  representable in 32 bits.
\<close>

definition to_unsigned :: "double \<Rightarrow> error + 32 word" where
  "to_unsigned d =
     (case d of
        Finite r \<Rightarrow>
          if - 1 < r \<and> r < 4294967296 then Inr (word_of_int (if r < 0 then 0 else \<lfloor>r\<rfloor>))
          else Inl IterationCountNotRepresentable
      | _ \<Rightarrow> Inl IterationCountNotRepresentable)"

subsection \<open>Parameters\<close>

text \<open>
  \<open>ParameterMap\<close> is \<open>std::unordered_map<const char *, double>\<close>. Its keys are the string
  literals of the one translation unit, which the model identifies by their text.
\<close>

type_synonym ParameterMap = "string \<rightharpoonup> double"

definition at_key :: "ParameterMap \<Rightarrow> string \<Rightarrow> error + double" where
  "at_key parameters key = (case parameters key of None \<Rightarrow> Inl OutOfRange | Some v \<Rightarrow> Inr v)"

subsection \<open>The random source\<close>

text \<open>
  \<open>rng\<close> is one \<open>std::mt19937\<close> shared by every draw. Neither the generator nor the
  distributions (\<open>sim::beta_distribution\<close> of stats.hh and those of the standard library)
  are part of partners.cc, so they are a parameter: a state \<open>'r\<close> of the generator, and for
  each distribution a function from its parameters and the state to the value drawn and
  the next state. \<open>shuffle\<close> is \<open>std::shuffle\<close> on the vector of agent pointers.
\<close>

record 'r sampler =
  bernoulli_distribution :: "double \<Rightarrow> 'r \<Rightarrow> bool \<times> 'r"
  uniform_real_distribution :: "double \<Rightarrow> double \<Rightarrow> 'r \<Rightarrow> double \<times> 'r"
  geometric_distribution :: "double \<Rightarrow> 'r \<Rightarrow> int \<times> 'r"
  beta_distribution :: "double \<Rightarrow> double \<Rightarrow> 'r \<Rightarrow> double \<times> 'r"
  shuffle :: "nat list \<Rightarrow> 'r \<Rightarrow> nat list \<times> 'r"

subsection \<open>Agents\<close>

datatype Sex = MALE | FEMALE

text \<open>
  \<open>struct Agent\<close>. The field \<open>id\<close> is called \<open>id_agent\<close> here. An \<open>Agent *\<close> is an address, a
  natural number; \<open>partners\<close> is a vector of such addresses, which nothing in partners.cc
  fills.
\<close>

record Agent =
  id_agent :: "32 word"
  sex :: Sex
  age :: double
  hiv :: "32 word"
  alive :: bool
  partners :: "nat list"
  relationship_stickiness_attribute :: double
  partner_forming_attribute :: double
  concurrency_attribute :: double
  sexual_drive_attribute :: double
  preference_fifs_attribute :: double
  force_infection_attribute :: double

text \<open>The value-initialised object of \<open>new Agent()\<close>: every member zero, no partners.\<close>

definition new_Agent :: Agent where
  "new_Agent =
     \<lparr>id_agent = 0, sex = MALE, age = Finite 0, hiv = 0, alive = False, partners = [],
      relationship_stickiness_attribute = Finite 0, partner_forming_attribute = Finite 0,
      concurrency_attribute = Finite 0, sexual_drive_attribute = Finite 0,
      preference_fifs_attribute = Finite 0, force_infection_attribute = Finite 0\<rparr>"

text \<open>
  \<open>Agent::init\<close>. The draws happen in the order of the statements, each on the state the
  one before left. \<open>std::min\<close> is taken on \<open>int\<close>, and the result converted to \<open>unsigned\<close>.
\<close>

definition init :: "'r sampler \<Rightarrow> 32 word \<Rightarrow> ParameterMap \<Rightarrow> Agent \<Rightarrow> 'r \<Rightarrow> error + (Agent \<times> 'r)" where
  "init smp i parameters a rng0 =
     (let (b, rng1) = bernoulli_distribution smp (Finite (1 / 2)) rng0;
          s = (if b = False then MALE else FEMALE);
          (y, rng2) = uniform_real_distribution smp (Finite 15) (Finite 20) rng1;
          (g, rng3) = geometric_distribution smp (Finite (9 / 10)) rng2;
          h = (word_of_int (min g 5) :: 32 word)
      in
      bind_e (at_key parameters ''MEAN_PARTNERSHIP_TIME'') (\<lambda>mean_partnership_time.
      bind_e (at_key parameters ''TIME_STEP'') (\<lambda>time_step.
      let (stickiness, rng4) =
            beta_distribution smp (Finite 2)
              (dmul (ddiv mean_partnership_time time_step) (Finite 2)) rng3
      in
      bind_e (at_key parameters ''MEAN_TIME_UNTIL_PARTNER'') (\<lambda>mean_time_until_partner.
      let (forming, rng5) =
            beta_distribution smp (Finite 2)
              (dmul (ddiv mean_time_until_partner time_step) (Finite 2)) rng4
      in
      bind_e (at_key parameters ''MEAN_TIME_CONCURRENT'') (\<lambda>mean_time_concurrent.
      let (concurrency, rng6) =
            beta_distribution smp (Finite 2)
              (dmul (ddiv mean_time_concurrent time_step) (Finite 2)) rng5
      in
      bind_e (at_key parameters ''MEAN_TIME_SEX'') (\<lambda>mean_time_sex.
      let (drive, rng7) =
            beta_distribution smp (Finite 2)
              (dmul (ddiv mean_time_sex time_step) (Finite 2)) rng6
      in
      bind_e (at_key parameters ''PREFERENCE_FIFS'') (\<lambda>preference_fifs.
      let (fifs, rng8) =
            beta_distribution smp (Finite 2)
              (dsub (ddiv (Finite 2) preference_fifs) (Finite 2)) rng7
      in
      bind_e (at_key parameters
                (if s = MALE then ''MEAN_RISK_HET_MALE_SEX'' else ''MEAN_RISK_HET_FEMALE_SEX''))
        (\<lambda>mean_risk.
      let (force, rng9) =
            beta_distribution smp (Finite 2)
              (dsub (ddiv (Finite 2) mean_risk) (Finite 2)) rng8
      in
      Inr (a\<lparr>id_agent := i, sex := s, age := y, hiv := h, alive := True,
              relationship_stickiness_attribute := stickiness,
              partner_forming_attribute := forming,
              concurrency_attribute := concurrency,
              sexual_drive_attribute := drive,
              preference_fifs_attribute := fifs,
              force_infection_attribute := force\<rparr>, rng9)))))))))"

text \<open>
  The store of agent objects: what each address holds. The vector \<open>AgentVector\<close> is a list
  of addresses, each of a live \<open>Agent\<close>; the same address may stand in it more than once.
  The agents are kept in a store and not in the vector because \<open>std::shuffle\<close> moves the
  pointers and the events change the objects.
\<close>

type_synonym heap = "nat \<Rightarrow> Agent"

type_synonym AgentVector = "nat list"

section \<open>Events\<close>

text \<open>
  \<open>Agent::simple_infection_event\<close>. The product is taken from the left, and the generator
  is used only when \<open>hiv == 0\<close>.
\<close>

definition simple_infection_event ::
  "'r sampler \<Rightarrow> double \<Rightarrow> double \<Rightarrow> Agent \<Rightarrow> 'r \<Rightarrow> Agent \<times> 'r" where
  "simple_infection_event smp prevalence_males prevalence_females a rng =
     (if hiv a = 0 then
        let prevalence = (if sex a = MALE then prevalence_females else prevalence_males);
            risk_infection =
              dmul (dmul (force_infection_attribute a) (partner_forming_attribute a)) prevalence;
            (u, rng') = uniform_real_distribution smp (Finite 0) (Finite 1) rng
        in (if dless u risk_infection then a\<lparr>hiv := 1\<rparr> else a, rng')
      else (a, rng))"

text \<open>
  \<open>Agent::stage_advance_event\<close>. \<open>&&\<close> evaluates its right operand, the draw, only when
  \<open>hiv == 1\<close>.
\<close>

definition stage_advance_event :: "'r sampler \<Rightarrow> double \<Rightarrow> Agent \<Rightarrow> 'r \<Rightarrow> Agent \<times> 'r" where
  "stage_advance_event smp prob_leave_acute_infection a rng =
     (if hiv a = 1 then
        let (u, rng') = uniform_real_distribution smp (Finite 0) (Finite 1) rng
        in (if dless u prob_leave_acute_infection then a\<lparr>hiv := hiv a + 1\<rparr> else a, rng')
      else (a, rng))"

definition age_event :: "double \<Rightarrow> Agent \<Rightarrow> Agent" where
  "age_event time_elapsed a = a\<lparr>age := dadd (age a) time_elapsed\<rparr>"

section \<open>Population\<close>

text \<open>
  \<open>initialize_agents\<close>: every slot of the vector gets the address of a new object, which
  \<open>init\<close> fills with the next id. The objects are named in the order of their allocation:
  the object of slot \<open>k\<close> has the address \<open>k\<close>. The first argument counts the slots left.
  Before the first allocation the store holds the value-initialised object everywhere.
\<close>

fun initialize_agents_from ::
  "'r sampler \<Rightarrow> ParameterMap \<Rightarrow> nat \<Rightarrow> nat \<Rightarrow> 32 word \<Rightarrow> heap \<times> 'r \<Rightarrow> error + (heap \<times> 'r)" where
  "initialize_agents_from smp parameters 0 k i (h, rng) = Inr (h, rng)"
| "initialize_agents_from smp parameters (Suc m) k i (h, rng) =
     bind_e (init smp i parameters new_Agent rng) (\<lambda>(a, rng').
       initialize_agents_from smp parameters m (Suc k) (i + 1) (h(k := a), rng'))"

definition initialize_agents ::
  "'r sampler \<Rightarrow> ParameterMap \<Rightarrow> nat \<Rightarrow> 'r \<Rightarrow> error + (AgentVector \<times> heap \<times> 'r)" where
  "initialize_agents smp parameters n rng =
     bind_e (initialize_agents_from smp parameters n 0 0 (\<lambda>_. new_Agent, rng))
       (\<lambda>(h, rng'). Inr ([0..<n], h, rng'))"

record Prevalence =
  males_alive :: "32 word"
  females_alive :: "32 word"
  males_infected :: "32 word"
  females_infected :: "32 word"
  male_prevalence :: double
  female_prevalence :: double

text \<open>
  The loop of \<open>calc_prevalence\<close>. The two prevalence fields have no value before the
  loop and are not read in it; the model starts them at NaN.
\<close>

fun calc_prevalence_loop :: "heap \<Rightarrow> AgentVector \<Rightarrow> Prevalence \<Rightarrow> Prevalence" where
  "calc_prevalence_loop h [] p = p"
| "calc_prevalence_loop h (agent # agents) p =
     calc_prevalence_loop h agents
       (if alive (h agent) then
          if sex (h agent) = MALE then
            let p1 = p\<lparr>males_alive := males_alive p + 1\<rparr>
            in if 0 < hiv (h agent) then p1\<lparr>males_infected := males_infected p1 + 1\<rparr> else p1
          else
            let p1 = p\<lparr>females_alive := females_alive p + 1\<rparr>
            in if 0 < hiv (h agent) then p1\<lparr>females_infected := females_infected p1 + 1\<rparr> else p1
        else p)"

definition calc_prevalence :: "heap \<Rightarrow> AgentVector \<Rightarrow> Prevalence" where
  "calc_prevalence h agents =
     (let p = calc_prevalence_loop h agents
                \<lparr>males_alive = 0, females_alive = 0, males_infected = 0, females_infected = 0,
                 male_prevalence = NaN, female_prevalence = NaN\<rparr>
      in p\<lparr>male_prevalence := ddiv (of_unsigned (males_infected p)) (of_unsigned (males_alive p)),
            female_prevalence :=
              ddiv (of_unsigned (females_infected p)) (of_unsigned (females_alive p))\<rparr>)"

section \<open>Reporting\<close>

text \<open>
  The line of CSV that \<open>report\<close> writes, as the values it prints. (\<open>summary\<close> only
  prints, and is not modelled.)
\<close>

record report_row =
  row_date :: double
  row_agents :: nat
  row_alive :: "32 word"
  row_infected :: "32 word"
  row_prevalence :: double
  row_by_sex :: Prevalence
  row_stages :: "32 word list"

text \<open>
  \<open>++hiv[agent->hiv]\<close> for every agent of the vector, alive or not, on the array
  \<open>unsigned hiv[6]\<close>.
\<close>

fun count_stages :: "heap \<Rightarrow> AgentVector \<Rightarrow> 32 word list \<Rightarrow> error + 32 word list" where
  "count_stages h [] counts = Inr counts"
| "count_stages h (agent # agents) counts =
     (let s = unat (hiv (h agent))
      in if s < 6 then count_stages h agents (counts[s := counts ! s + 1])
         else Inl StageIndexOutOfBounds)"

definition report :: "double \<Rightarrow> heap \<Rightarrow> AgentVector \<Rightarrow> error + report_row" where
  "report date h agents =
     (let p = calc_prevalence h agents
      in bind_e (count_stages h agents [0, 0, 0, 0, 0, 0]) (\<lambda>stages.
           Inr \<lparr>row_date = date, row_agents = length agents,
                row_alive = males_alive p + females_alive p,
                row_infected = males_infected p + females_infected p,
                row_prevalence =
                  ddiv (of_unsigned (males_infected p + females_infected p))
                       (of_unsigned (males_alive p + females_alive p)),
                row_by_sex = p, row_stages = stages\<rparr>))"

section \<open>The driver\<close>

text \<open>
  The inner loop of \<open>simulate\<close>: the three events of every alive agent, in the order of
  the vector, with the prevalence \<open>p\<close> computed before the loop.
\<close>

fun agent_events ::
  "'r sampler \<Rightarrow> Prevalence \<Rightarrow> double \<Rightarrow> double \<Rightarrow> Agent \<Rightarrow> 'r \<Rightarrow> Agent \<times> 'r" where
  "agent_events smp p prob_leave_acute_infection time_step a rng =
     (let (a1, rng1) = simple_infection_event smp (male_prevalence p) (female_prevalence p) a rng;
          (a2, rng2) = stage_advance_event smp prob_leave_acute_infection a1 rng1
      in (age_event time_step a2, rng2))"

fun events_loop ::
  "'r sampler \<Rightarrow> Prevalence \<Rightarrow> double \<Rightarrow> double \<Rightarrow> AgentVector \<Rightarrow> heap \<times> 'r \<Rightarrow> heap \<times> 'r" where
  "events_loop smp p prob_leave_acute_infection time_step [] (h, rng) = (h, rng)"
| "events_loop smp p prob_leave_acute_infection time_step (agent # agents) (h, rng) =
     events_loop smp p prob_leave_acute_infection time_step agents
       (if alive (h agent) then
          let (a', rng') = agent_events smp p prob_leave_acute_infection time_step (h agent) rng
          in (h(agent := a'), rng')
        else (h, rng))"

text \<open>
  The state of a run: the vector, the store, the generator and the lines written so far.
\<close>

type_synonym 'r run = "AgentVector \<times> heap \<times> 'r \<times> report_row list"

text \<open>One pass of the body of the \<open>for\<close> loop of \<open>simulate\<close>, with the loop counter \<open>i\<close>.\<close>

definition simulate_iteration ::
  "'r sampler \<Rightarrow> double \<Rightarrow> double \<Rightarrow> double \<Rightarrow> nat \<Rightarrow> 'r run \<Rightarrow> error + 'r run" where
  "simulate_iteration smp time_step start_date prob_leave_acute_infection i st =
     (case st of (agents, h, rng, out) \<Rightarrow>
        let (agents', rng1) = shuffle smp agents rng;
            p = calc_prevalence h agents';
            (h', rng2) = events_loop smp p prob_leave_acute_infection time_step agents' (h, rng1)
        in bind_e (report (dadd start_date (dmul time_step (of_unsigned (word_of_nat i)))) h' agents')
             (\<lambda>row. Inr (agents', h', rng2, out @ [row])))"

text \<open>
  \<open>for (unsigned i = 0; i < num_iterations; ++i)\<close>. The counter stays below
  \<open>num_iterations\<close>, so it does not wrap, and is a natural number here.
\<close>

function simulate_loop ::
  "'r sampler \<Rightarrow> double \<Rightarrow> double \<Rightarrow> double \<Rightarrow> nat \<Rightarrow> nat \<Rightarrow> 'r run \<Rightarrow> error + 'r run" where
  "simulate_loop smp time_step start_date prob_leave_acute_infection num_iterations i st =
     (if i < num_iterations then
        bind_e (simulate_iteration smp time_step start_date prob_leave_acute_infection i st)
          (simulate_loop smp time_step start_date prob_leave_acute_infection num_iterations (Suc i))
      else Inr st)"
  by pat_completeness auto
termination
  by (relation "measure (\<lambda>(smp, ts, sd, pl, n, i, st). n - i)") auto

declare simulate_loop.simps [simp del]

definition simulate :: "'r sampler \<Rightarrow> ParameterMap \<Rightarrow> 'r run \<Rightarrow> error + 'r run" where
  "simulate smp parameters st =
     bind_e (at_key parameters ''NUM_YEARS'') (\<lambda>num_years.
     bind_e (at_key parameters ''TIME_STEP'') (\<lambda>time_step.
     bind_e (at_key parameters ''START_DATE'') (\<lambda>start_date.
     bind_e (at_key parameters ''LEAVE_ACUTE_INFECTION'') (\<lambda>prob_leave_acute_infection.
     bind_e (to_unsigned (ddiv num_years time_step)) (\<lambda>num_iterations.
       simulate_loop smp time_step start_date prob_leave_acute_infection
         (unat num_iterations) 0 st)))))"

section \<open>Contracts of the random source\<close>

text \<open>
  Modelled from the spec: the distributions and \<open>std::shuffle\<close> are not in partners.cc; the
  spec gives them "only by their required statistical contract". The part of each
  contract that holds of every single draw is stated here, as a property of the sampler.
\<close>

text \<open>
  Modelled from the spec: "All randomness draws a uniform variate in [0,1)", for
  \<open>std::uniform_real_distribution<double>(0.0, 1.0)\<close>.
\<close>

definition uniform_in_unit_interval :: "'r sampler \<Rightarrow> bool" where
  "uniform_in_unit_interval smp \<longleftrightarrow>
     (\<forall>rng. \<exists>x. fst (uniform_real_distribution smp (Finite 0) (Finite 1) rng) = Finite x
               \<and> 0 \<le> x \<and> x < 1)"

text \<open>
  Modelled from the spec: the "geometric draw" of \<open>std::geometric_distribution<int>\<close>
  counts failures before the first success, so it is never negative.
\<close>

definition geometric_nonnegative :: "'r sampler \<Rightarrow> bool" where
  "geometric_nonnegative smp \<longleftrightarrow> (\<forall>p rng. 0 \<le> fst (geometric_distribution smp p rng))"

text \<open>
  Modelled from the spec: a trait is a draw of Beta(2, b), "a real number in [0,1]", and
  "the second is derived so that the distribution's mean equals the configured target".
  The mean of Beta(2, b) is \<open>2 / (2 + b)\<close>. For a target of 0 the second shape is
  \<open>2.0 / 0 - 2.0\<close>, which is \<open>+inf\<close>; the mean is then 0, and a draw from [0,1] with
  mean 0 is 0.
\<close>

definition beta_in_unit_interval :: "'r sampler \<Rightarrow> bool" where
  "beta_in_unit_interval smp \<longleftrightarrow>
     (\<forall>b rng. \<exists>x. fst (beta_distribution smp (Finite 2) b rng) = Finite x \<and> 0 \<le> x \<and> x \<le> 1
                 \<and> (b = PlusInf \<longrightarrow> x = 0))"

text \<open>
  Modelled from the spec: the shuffle is a "uniform random permutation" of the agent
  order, so the shuffled vector holds the same addresses as often as before.
\<close>

definition shuffle_permutes :: "'r sampler \<Rightarrow> bool" where
  "shuffle_permutes smp \<longleftrightarrow> (\<forall>agents rng. mset (fst (shuffle smp agents rng)) = mset agents)"

section \<open>A sampler and parameters to run the model on\<close>

text \<open>
  A deterministic stand-in for the random source, with a counter as its state, that
  meets the four contracts: the theorems below are applied to it on small populations.
\<close>

definition counter_sampler :: "nat sampler" where
  "counter_sampler =
     \<lparr>bernoulli_distribution = (\<lambda>p r. (odd r, Suc r)),
      uniform_real_distribution =
        (\<lambda>a b r. (case (a, b) of
                     (Finite x, Finite y) \<Rightarrow> Finite (x + (y - x) * (real (r mod 4) / 4))
                   | _ \<Rightarrow> NaN, Suc r)),
      geometric_distribution = (\<lambda>p r. (int (r mod 2), Suc r)),
      beta_distribution =
        (\<lambda>a b r. (if b = PlusInf then Finite 0 else Finite (1 / real (r mod 9 + 1)), Suc r)),
      shuffle = (\<lambda>agents r. (rev agents, Suc r))\<rparr>"

text \<open>The parameters that \<open>main\<close> sets, with \<open>DAY = 1.0 / 365.25\<close>.\<close>

definition main_parameters :: ParameterMap where
  "main_parameters =
     map_of
       [(''NUM_YEARS'', Finite 2),
        (''TIME_STEP'', Finite (1 / (1461 / 4))),
        (''START_DATE'', Finite 2015),
        (''MEAN_TIME_UNTIL_PARTNER'', Finite (1 / 4)),
        (''MEAN_PARTNERSHIP_TIME'', Finite (1 / 4)),
        (''MEAN_TIME_CONCURRENT'', Finite 1),
        (''MEAN_TIME_SEX'', Finite (1 / (1461 / 4))),
        (''PREFERENCE_FIFS'', Finite (1 / 2)),
        (''MEAN_RISK_HET_MALE_SEX'', Finite (1 / 100)),
        (''MEAN_RISK_HET_FEMALE_SEX'', Finite (1 / 50)),
        (''LEAVE_ACUTE_INFECTION'', Finite (238095238 / 10000000000))]"

text \<open>The same with both mean risks set to 0, the configuration of Scenario 3.\<close>

definition zero_risk_parameters :: ParameterMap where
  "zero_risk_parameters =
     main_parameters(''MEAN_RISK_HET_MALE_SEX'' \<mapsto> Finite 0,
                     ''MEAN_RISK_HET_FEMALE_SEX'' \<mapsto> Finite 0)"

text \<open>
  A store with two alive females (the first infected) at the addresses 0 and 1 and two
  alive males (the second infected) at 2 and 3.
\<close>

definition four_agents :: heap where
  "four_agents =
     (\<lambda>_. new_Agent)
       (0 := new_Agent\<lparr>sex := FEMALE, hiv := 1, alive := True\<rparr>,
        1 := new_Agent\<lparr>sex := FEMALE, alive := True\<rparr>,
        2 := new_Agent\<lparr>sex := MALE, alive := True\<rparr>,
        3 := new_Agent\<lparr>sex := MALE, hiv := 3, alive := True\<rparr>)"

text \<open>
  A store with one uninfected male at the address 0 and one female in primary infection
  at 1, both alive.
\<close>

definition two_agents :: heap where
  "two_agents =
     (\<lambda>_. new_Agent)
       (0 := new_Agent\<lparr>sex := MALE, age := Finite 16, alive := True,
                       partner_forming_attribute := Finite (1 / 2),
                       force_infection_attribute := Finite (1 / 2)\<rparr>,
        1 := new_Agent\<lparr>id_agent := 1, sex := FEMALE, age := Finite 17, hiv := 1, alive := True,
                       partner_forming_attribute := Finite (1 / 2),
                       force_infection_attribute := Finite (1 / 2)\<rparr>)"

text \<open>The parameters of \<open>main\<close> for a run of two days.\<close>

definition two_day_parameters :: ParameterMap where
  "two_day_parameters = main_parameters(''NUM_YEARS'' \<mapsto> Finite (2 / (1461 / 4)))"

text \<open>
  One iteration on \<open>two_agents\<close> in which the male is infected: the vector \<open>[1, 0]\<close> with
  the generator at 3.
\<close>

definition infecting_iteration :: "error + nat run" where
  "infecting_iteration =
     simulate_iteration counter_sampler (Finite 1) (Finite 2015) (Finite (1 / 2)) 0
       ([1, 0], two_agents, 3, [])"

section \<open>Initialisation of an agent\<close>

lemmas run_defs =
  counter_sampler_def main_parameters_def new_Agent_def bind_e_def at_key_def Let_def dsub_def

lemma initialize_agents_from_numeral:
  "initialize_agents_from smp parameters (numeral v) k i st =
     initialize_agents_from smp parameters (Suc (pred_numeral v)) k i st"
  by (simp add: numeral_eq_Suc)

text \<open>
  What \<open>init\<close> stores in \<open>relationship_stickiness_attribute\<close>, for any sampler and any
  parameters: the fourth draw, from Beta(2, MEAN_PARTNERSHIP_TIME / TIME_STEP * 2), as it
  comes.
\<close>

lemma init_stores_beta_draw:
  assumes "init smp i parameters a rng = Inr (a', rng')"
    and "parameters ''MEAN_PARTNERSHIP_TIME'' = Some mean_partnership_time"
    and "parameters ''TIME_STEP'' = Some time_step"
  shows "relationship_stickiness_attribute a' =
           fst (beta_distribution smp (Finite 2)
                  (dmul (ddiv mean_partnership_time time_step) (Finite 2))
                  (snd (geometric_distribution smp (Finite (9 / 10))
                     (snd (uniform_real_distribution smp (Finite 15) (Finite 20)
                        (snd (bernoulli_distribution smp (Finite (1 / 2)) rng)))))))"
  using assms
  by (auto simp: init_def bind_e_def at_key_def Let_def
           split: prod.splits option.splits sum.splits if_splits)

text \<open>
  C1. The claim: \<open>init\<close> sets the stickiness trait to 1 minus a draw from
  Beta(2, MEAN_PARTNERSHIP_TIME / TIME_STEP * 2), as the comment at the head of
  partners.cc and the notes in sexualModelling.md say ("Initialize to 1 - beta
  distribution"). The code stores the draw itself. With the parameters of \<open>main\<close> and a
  sampler whose draw there is 1/4, the trait is 1/4, and 1 minus the draw is 3/4.
\<close>

theorem init_stickiness_is_raw_draw:
  "case init counter_sampler 0 main_parameters new_Agent 0 of
     Inl e \<Rightarrow> False
   | Inr (a, rng) \<Rightarrow>
       fst (beta_distribution counter_sampler (Finite 2)
              (dmul (ddiv (Finite (1 / 4)) (Finite (1 / (1461 / 4)))) (Finite 2)) 3)
         = Finite (1 / 4)
       \<and> relationship_stickiness_attribute a = Finite (1 / 4)
       \<and> dsub (Finite 1) (Finite (1 / 4)) = Finite (3 / 4)"
  by (simp add: init_def run_defs)

section \<open>The events of an agent\<close>



section \<open>The prevalence aggregate\<close>

text \<open>
  The loop of \<open>calc_prevalence\<close> adds to each of the four counters the number of agents
  of the vector, repetitions counted, that its condition selects, modulo \<open>2 ^ 32\<close>.
\<close>

lemma calc_prevalence_loop_counts:
  "calc_prevalence_loop h agents p =
     p\<lparr>males_alive := males_alive p
          + of_nat (length (filter (\<lambda>x. alive (h x) \<and> sex (h x) = MALE) agents)),
       females_alive := females_alive p
          + of_nat (length (filter (\<lambda>x. alive (h x) \<and> sex (h x) \<noteq> MALE) agents)),
       males_infected := males_infected p
          + of_nat (length (filter (\<lambda>x. alive (h x) \<and> sex (h x) = MALE \<and> 0 < hiv (h x)) agents)),
       females_infected := females_infected p
          + of_nat (length (filter (\<lambda>x. alive (h x) \<and> sex (h x) \<noteq> MALE \<and> 0 < hiv (h x)) agents))\<rparr>"
  by (induction agents arbitrary: p) (simp_all add: Let_def)

lemma length_filter_mset: "mset xs = mset ys \<Longrightarrow> length (filter P xs) = length (filter P ys)"
  by (metis mset_filter size_mset)

lemma calc_prevalence_mset:
  "mset agents = mset agents' \<Longrightarrow> calc_prevalence h agents = calc_prevalence h agents'"
  unfolding calc_prevalence_def calc_prevalence_loop_counts
  by (simp add: length_filter_mset [of agents agents'])

lemma calc_prevalence_fields:
  "males_alive (calc_prevalence h agents) =
     of_nat (length (filter (\<lambda>x. alive (h x) \<and> sex (h x) = MALE) agents))"
  "females_alive (calc_prevalence h agents) =
     of_nat (length (filter (\<lambda>x. alive (h x) \<and> sex (h x) \<noteq> MALE) agents))"
  "males_infected (calc_prevalence h agents) =
     of_nat (length (filter (\<lambda>x. alive (h x) \<and> sex (h x) = MALE \<and> 0 < hiv (h x)) agents))"
  "females_infected (calc_prevalence h agents) =
     of_nat (length (filter (\<lambda>x. alive (h x) \<and> sex (h x) \<noteq> MALE \<and> 0 < hiv (h x)) agents))"
  "male_prevalence (calc_prevalence h agents) =
     ddiv (of_unsigned (males_infected (calc_prevalence h agents)))
          (of_unsigned (males_alive (calc_prevalence h agents)))"
  "female_prevalence (calc_prevalence h agents) =
     ddiv (of_unsigned (females_infected (calc_prevalence h agents)))
          (of_unsigned (females_alive (calc_prevalence h agents)))"
  by (simp_all add: calc_prevalence_def calc_prevalence_loop_counts Let_def)

lemma word_of_nat_filter_le:
  assumes "length xs < 2 ^ 32" and "\<And>x. P x \<Longrightarrow> Q x"
  shows "(of_nat (length (filter P xs)) :: 32 word) \<le> of_nat (length (filter Q xs))"
proof -
  have "length (filter P xs) \<le> length (filter Q xs)"
    using assms(2) by (induction xs) auto
  moreover have "length (filter Q xs) < 2 ^ 32"
    using assms(1) length_filter_le [of Q xs] by linarith
  ultimately show ?thesis
    by (simp add: word_of_nat_less_eq_iff take_bit_nat_eq_self)
qed

text \<open>The contracts hold of the stand-in sampler.\<close>

lemma counter_sampler_shuffle_permutes: "shuffle_permutes counter_sampler"
  by (simp add: shuffle_permutes_def counter_sampler_def)

lemma counter_sampler_geometric_nonnegative: "geometric_nonnegative counter_sampler"
  by (simp add: geometric_nonnegative_def counter_sampler_def)

lemma counter_sampler_uniform_in_unit_interval: "uniform_in_unit_interval counter_sampler"
  unfolding uniform_in_unit_interval_def
proof
  fix rng :: nat
  have "rng mod 4 < 4" by simp
  then have "real (rng mod 4) < 4" by linarith
  then have b: "real (rng mod 4) / 4 < 1" by simp
  show "\<exists>x. fst (uniform_real_distribution counter_sampler (Finite 0) (Finite 1) rng) = Finite x
            \<and> 0 \<le> x \<and> x < 1"
    by (rule exI [of _ "real (rng mod 4) / 4"]) (simp add: counter_sampler_def b)
qed

lemma counter_sampler_beta_in_unit_interval: "beta_in_unit_interval counter_sampler"
  by (simp add: beta_in_unit_interval_def counter_sampler_def)

text \<open>
  C5. When the vector holds no alive agent of one sex, \<open>calc_prevalence\<close> returns (it is a
  total function: nothing in it stops the run), both counters of that sex are 0, and
  the prevalence of that sex, the quotient \<open>0 / 0\<close>, is NaN. The infected counter of a
  sex is at most its alive counter on every vector of fewer than \<open>2 ^ 32\<close> agents (the
  counters are \<open>unsigned\<close>), and there an alive counter of 0 gives a prevalence of NaN.
\<close>

theorem calc_prevalence_empty_sex_is_NaN:
  "((\<forall>x \<in> set agents. alive (h x) \<longrightarrow> sex (h x) \<noteq> MALE) \<longrightarrow>
      males_alive (calc_prevalence h agents) = 0
      \<and> males_infected (calc_prevalence h agents) = 0
      \<and> male_prevalence (calc_prevalence h agents) = NaN)
   \<and> ((\<forall>x \<in> set agents. alive (h x) \<longrightarrow> sex (h x) \<noteq> FEMALE) \<longrightarrow>
      females_alive (calc_prevalence h agents) = 0
      \<and> females_infected (calc_prevalence h agents) = 0
      \<and> female_prevalence (calc_prevalence h agents) = NaN)
   \<and> (length agents < 2 ^ 32 \<longrightarrow>
      males_infected (calc_prevalence h agents) \<le> males_alive (calc_prevalence h agents)
      \<and> females_infected (calc_prevalence h agents) \<le> females_alive (calc_prevalence h agents)
      \<and> (males_alive (calc_prevalence h agents) = 0 \<longrightarrow>
           male_prevalence (calc_prevalence h agents) = NaN)
      \<and> (females_alive (calc_prevalence h agents) = 0 \<longrightarrow>
           female_prevalence (calc_prevalence h agents) = NaN))"
proof (intro conjI impI)
  assume m: "\<forall>x \<in> set agents. alive (h x) \<longrightarrow> sex (h x) \<noteq> MALE"
  then have e: "filter (\<lambda>x. alive (h x) \<and> sex (h x) = MALE) agents = []"
    "filter (\<lambda>x. alive (h x) \<and> sex (h x) = MALE \<and> 0 < hiv (h x)) agents = []"
    by (auto simp: filter_empty_conv)
  show "males_alive (calc_prevalence h agents) = 0"
    and "males_infected (calc_prevalence h agents) = 0"
    by (simp_all add: calc_prevalence_fields e)
  then show "male_prevalence (calc_prevalence h agents) = NaN"
    by (simp add: calc_prevalence_fields(5) of_unsigned_def)
next
  assume f: "\<forall>x \<in> set agents. alive (h x) \<longrightarrow> sex (h x) \<noteq> FEMALE"
  then have "\<forall>x \<in> set agents. alive (h x) \<longrightarrow> sex (h x) = MALE"
    by (metis Sex.exhaust)
  then have e: "filter (\<lambda>x. alive (h x) \<and> sex (h x) \<noteq> MALE) agents = []"
    "filter (\<lambda>x. alive (h x) \<and> sex (h x) \<noteq> MALE \<and> 0 < hiv (h x)) agents = []"
    by (auto simp: filter_empty_conv)
  show "females_alive (calc_prevalence h agents) = 0"
    and "females_infected (calc_prevalence h agents) = 0"
    by (simp_all add: calc_prevalence_fields e)
  then show "female_prevalence (calc_prevalence h agents) = NaN"
    by (simp add: calc_prevalence_fields(6) of_unsigned_def)
next
  assume l: "length agents < 2 ^ 32"
  then show le: "males_infected (calc_prevalence h agents) \<le> males_alive (calc_prevalence h agents)"
    "females_infected (calc_prevalence h agents) \<le> females_alive (calc_prevalence h agents)"
    by (simp_all only: calc_prevalence_fields) (rule word_of_nat_filter_le; simp)+
  {
    assume "males_alive (calc_prevalence h agents) = 0"
    then show "male_prevalence (calc_prevalence h agents) = NaN"
      using le(1) by (simp add: calc_prevalence_fields(5) of_unsigned_def)
  }
  {
    assume "females_alive (calc_prevalence h agents) = 0"
    then show "female_prevalence (calc_prevalence h agents) = NaN"
      using le(2) by (simp add: calc_prevalence_fields(6) of_unsigned_def)
  }
qed

theorem calc_prevalence_empty_sex_is_NaN_witness:
  "sex (four_agents 0) = FEMALE \<and> sex (four_agents 1) = FEMALE
   \<and> male_prevalence (calc_prevalence four_agents [0, 1]) = NaN
   \<and> sex (four_agents 2) = MALE \<and> sex (four_agents 3) = MALE
   \<and> female_prevalence (calc_prevalence four_agents [2, 3]) = NaN
   \<and> length [0, 1, 2, 3 :: nat] < 2 ^ 32
   \<and> males_infected (calc_prevalence four_agents [0, 1, 2, 3])
        \<le> males_alive (calc_prevalence four_agents [0, 1, 2, 3])"
proof -
  have s: "sex (four_agents 0) = FEMALE" "sex (four_agents 1) = FEMALE"
    "sex (four_agents 2) = MALE" "sex (four_agents 3) = MALE"
    by (simp_all add: four_agents_def new_Agent_def)
  have h1: "\<forall>x \<in> set [0, 1]. alive (four_agents x) \<longrightarrow> sex (four_agents x) \<noteq> MALE"
    using s by simp
  have h2: "\<forall>x \<in> set [2, 3]. alive (four_agents x) \<longrightarrow> sex (four_agents x) \<noteq> FEMALE"
    using s by simp
  have h3: "length [0, 1, 2, 3 :: nat] < 2 ^ 32"
    by simp
  note t = calc_prevalence_empty_sex_is_NaN
  note c1 = t [of "[0, 1]" four_agents, THEN conjunct1, THEN mp, OF h1]
  note c2 = t [of "[2, 3]" four_agents, THEN conjunct2, THEN conjunct1, THEN mp, OF h2]
  note c3 = t [of "[0, 1, 2, 3]" four_agents, THEN conjunct2, THEN conjunct2, THEN mp, OF h3]
  show ?thesis
    using s h3 c1 c2 c3 by (intro conjI) (elim conjE, assumption)+
qed

text \<open>
  C10. \<open>calc_prevalence\<close> gives the same record (the four counts and the two
  prevalences) on a vector and on every permutation of it; so the shuffle at the head
  of an iteration of \<open>simulate\<close>, which permutes the vector, does not change the prevalence
  that the iteration computes.
\<close>

theorem calc_prevalence_permutation_invariant:
  "(mset agents = mset agents' \<longrightarrow> calc_prevalence h agents = calc_prevalence h agents')
   \<and> (shuffle_permutes smp \<longrightarrow>
        calc_prevalence h (fst (shuffle smp agents rng)) = calc_prevalence h agents)"
  by (auto simp: shuffle_permutes_def intro: calc_prevalence_mset)

theorem calc_prevalence_permutation_invariant_witness:
  "mset [0, 1, 2, 3 :: nat] = mset [2, 0, 3, 1]
   \<and> calc_prevalence four_agents [0, 1, 2, 3] = calc_prevalence four_agents [2, 0, 3, 1]
   \<and> shuffle_permutes counter_sampler
   \<and> calc_prevalence four_agents (fst (shuffle counter_sampler [0, 1, 2, 3] 7))
       = calc_prevalence four_agents [0, 1, 2, 3]"
proof -
  have h: "mset [0, 1, 2, 3 :: nat] = mset [2, 0, 3, 1]"
    by simp
  note t = calc_prevalence_permutation_invariant
             [of "[0, 1, 2, 3]" "[2, 0, 3, 1]" four_agents counter_sampler 7]
  note c1 = t [THEN conjunct1, THEN mp, OF h]
  note c2 = t [THEN conjunct2, THEN mp, OF counter_sampler_shuffle_permutes]
  show ?thesis
    using h c1 c2 counter_sampler_shuffle_permutes by (intro conjI) assumption+
qed

section \<open>The loop over the agents\<close>

lemma events_loop_append:
  "events_loop smp p pl ts (xs @ ys) st = events_loop smp p pl ts ys (events_loop smp p pl ts xs st)"
proof (induction xs arbitrary: st)
  case Nil
  show ?case by (cases st) simp
next
  case (Cons x xs)
  show ?case by (cases st) (simp add: Cons.IH)
qed

lemma events_loop_rel:
  assumes refl: "\<And>a. R a a"
    and trans: "\<And>a b c. R a b \<Longrightarrow> R b c \<Longrightarrow> R a c"
    and step: "\<And>a r. alive a \<Longrightarrow> R a (fst (agent_events smp p pl ts a r))"
  shows "R (h x) (fst (events_loop smp p pl ts xs (h, rng)) x)"
proof (induction xs arbitrary: h rng)
  case Nil
  show ?case by (simp add: refl)
next
  case (Cons y ys)
  show ?case
  proof (cases "alive (h y)")
    case False
    then show ?thesis using Cons.IH [of h rng] by simp
  next
    case True
    obtain a' rng' where ae: "agent_events smp p pl ts (h y) rng = (a', rng')"
      by (cases "agent_events smp p pl ts (h y) rng")
    have "R (h y) a'"
      using step [OF True, of rng] ae by simp
    then have "R (h x) ((h(y := a')) x)"
      by (simp add: refl)
    moreover have "R ((h(y := a')) x) (fst (events_loop smp p pl ts ys (h(y := a'), rng')) x)"
      by (rule Cons.IH)
    ultimately have "R (h x) (fst (events_loop smp p pl ts ys (h(y := a'), rng')) x)"
      by (rule trans)
    then show ?thesis
      using True ae by (simp del: agent_events.simps)
  qed
qed

lemma events_loop_notin:
  "x \<notin> set xs \<Longrightarrow> fst (events_loop smp p pl ts xs (h, rng)) x = h x"
proof (induction xs arbitrary: h rng)
  case Nil
  show ?case by simp
next
  case (Cons y ys)
  then have "x \<noteq> y" and "x \<notin> set ys" by auto
  obtain a' rng' where ae: "agent_events smp p pl ts (h y) rng = (a', rng')"
    by (cases "agent_events smp p pl ts (h y) rng")
  show ?case
    using Cons.IH [OF \<open>x \<notin> set ys\<close>] \<open>x \<noteq> y\<close> ae by (simp del: agent_events.simps)
qed

lemma events_loop_nth:
  assumes "distinct xs" and "k < length xs"
  shows "fst (events_loop smp p pl ts xs (h, rng)) (xs ! k) =
           (if alive (h (xs ! k))
            then fst (agent_events smp p pl ts (h (xs ! k))
                        (snd (events_loop smp p pl ts (take k xs) (h, rng))))
            else h (xs ! k))"
proof -
  let ?E = "events_loop smp p pl ts"
  let ?x = "xs ! k"
  have xs: "xs = take k xs @ ?x # drop (Suc k) xs"
    using assms(2) by (rule id_take_nth_drop)
  have d: "distinct (take k xs @ ?x # drop (Suc k) xs)"
    using assms by (simp add: id_take_nth_drop [symmetric])
  have n1: "?x \<notin> set (take k xs)"
    using d by auto
  have n2: "?x \<notin> set (drop (Suc k) xs)"
    using d by auto
  obtain hk rk where k: "?E (take k xs) (h, rng) = (hk, rk)"
    by (cases "?E (take k xs) (h, rng)")
  have hk: "hk ?x = h ?x"
    using events_loop_notin [OF n1, of smp p pl ts h rng] k by simp
  obtain a' rng' where ae: "agent_events smp p pl ts (h ?x) rk = (a', rng')"
    by (cases "agent_events smp p pl ts (h ?x) rk")
  have "?E xs (h, rng) = ?E (take k xs @ ?x # drop (Suc k) xs) (h, rng)"
    using arg_cong [OF xs, of "\<lambda>l. ?E l (h, rng)"] .
  also have "\<dots> = ?E (drop (Suc k) xs) (?E [?x] (hk, rk))"
    using k events_loop_append [of smp p pl ts "take k xs" "?x # drop (Suc k) xs" "(h, rng)"]
      events_loop_append [of smp p pl ts "[?x]" "drop (Suc k) xs" "(hk, rk)"]
    by simp
  also have "?E [?x] (hk, rk) = (if alive (h ?x) then (hk(?x := a'), rng') else (hk, rk))"
    using hk ae by (simp del: agent_events.simps)
  finally have e: "?E xs (h, rng) =
      ?E (drop (Suc k) xs) (if alive (h ?x) then (hk(?x := a'), rng') else (hk, rk))" .
  have "fst (?E xs (h, rng)) ?x = (if alive (h ?x) then a' else h ?x)"
  proof (cases "alive (h ?x)")
    case True
    then show ?thesis
      using e events_loop_notin [OF n2, of smp p pl ts "hk(?x := a')" rng'] by simp
  next
    case False
    then show ?thesis
      using e events_loop_notin [OF n2, of smp p pl ts hk rk] hk by simp
  qed
  then show ?thesis
    using k ae by simp
qed

text \<open>
  The three events of one agent: only \<open>hiv\<close> and \<open>age\<close> change, \<open>age\<close> by one addition of
  the time step, \<open>hiv\<close> not at all or from 0 to 1 or 2 or from 1 to 2.
\<close>

lemma agent_events_unfold:
  "agent_events smp p pl ts a rng =
     (age_event ts
        (fst (stage_advance_event smp pl
           (fst (simple_infection_event smp (male_prevalence p) (female_prevalence p) a rng))
           (snd (simple_infection_event smp (male_prevalence p) (female_prevalence p) a rng)))),
      snd (stage_advance_event smp pl
           (fst (simple_infection_event smp (male_prevalence p) (female_prevalence p) a rng))
           (snd (simple_infection_event smp (male_prevalence p) (female_prevalence p) a rng))))"
  by (simp add: Let_def split: prod.splits)

declare agent_events.simps [simp del]

lemma simple_infection_event_cases:
  "fst (simple_infection_event smp pm pf a rng) = a
   \<or> (hiv a = 0 \<and> fst (simple_infection_event smp pm pf a rng) = a\<lparr>hiv := 1\<rparr>)"
  by (auto simp: simple_infection_event_def Let_def split: prod.splits)

lemma stage_advance_event_cases:
  "fst (stage_advance_event smp pl a rng) = a
   \<or> (hiv a = 1 \<and> fst (stage_advance_event smp pl a rng) = a\<lparr>hiv := 2\<rparr>)"
  by (auto simp: stage_advance_event_def Let_def split: prod.splits)

lemma agent_events_cases:
  "\<exists>v. fst (agent_events smp p pl ts a rng) = a\<lparr>hiv := v, age := dadd (age a) ts\<rparr>
       \<and> (v = hiv a \<or> (hiv a = 0 \<and> (v = 1 \<or> v = 2)) \<or> (hiv a = 1 \<and> v = 2))"
proof -
  let ?a1 = "fst (simple_infection_event smp (male_prevalence p) (female_prevalence p) a rng)"
  let ?r1 = "snd (simple_infection_event smp (male_prevalence p) (female_prevalence p) a rng)"
  let ?a2 = "fst (stage_advance_event smp pl ?a1 ?r1)"
  have e: "fst (agent_events smp p pl ts a rng) = ?a2\<lparr>age := dadd (age ?a2) ts\<rparr>"
    by (simp add: agent_events_unfold age_event_def)
  consider "?a1 = a" | "hiv a = 0" "?a1 = a\<lparr>hiv := 1\<rparr>"
    using simple_infection_event_cases [of smp "male_prevalence p" "female_prevalence p" a rng]
    by blast
  then show ?thesis
  proof cases
    case 1
    consider "?a2 = a" | "hiv a = 1" "?a2 = a\<lparr>hiv := 2\<rparr>"
      using stage_advance_event_cases [of smp pl ?a1 ?r1] 1 by auto
    then show ?thesis
    proof cases
      case 1
      then show ?thesis unfolding e by (intro exI [of _ "hiv a"]) simp
    next
      case 2
      then show ?thesis unfolding e by (intro exI [of _ 2]) simp
    qed
  next
    case 2
    consider "?a2 = a\<lparr>hiv := 1\<rparr>" | "?a2 = a\<lparr>hiv := 2\<rparr>"
      using stage_advance_event_cases [of smp pl ?a1 ?r1] 2 by auto
    then show ?thesis
    proof cases
      case 1
      then show ?thesis unfolding e using 2(1) by (intro exI [of _ 1]) simp
    next
      case 2
      then show ?thesis unfolding e using \<open>hiv a = 0\<close> by (intro exI [of _ 2]) simp
    qed
  qed
qed



lemma agent_events_force:
  "force_infection_attribute (fst (agent_events smp p pl ts a rng)) = force_infection_attribute a"
  using agent_events_cases [of smp p pl ts a rng] by auto

lemma agent_events_hiv_mono: "hiv a \<le> hiv (fst (agent_events smp p pl ts a rng))"
  using agent_events_cases [of smp p pl ts a rng] by auto

lemma agent_events_hiv_bound:
  "hiv a \<le> 5 \<Longrightarrow> hiv (fst (agent_events smp p pl ts a rng)) \<le> 5"
  using agent_events_cases [of smp p pl ts a rng] by auto

text \<open>
  With a force of infection of 0 the risk is 0 or NaN, and no draw from [0,1) is below
  it.
\<close>

lemma dmul_zero_left: "dmul (Finite 0) y = Finite 0 \<or> dmul (Finite 0) y = NaN"
  by (cases y) auto

lemma not_dless_zero_product:
  assumes "0 \<le> x"
  shows "\<not> dless (Finite x) (dmul (dmul (Finite 0) y) z)"
proof -
  consider "dmul (Finite 0) y = Finite 0" | "dmul (Finite 0) y = NaN"
    using dmul_zero_left by blast
  then show ?thesis
  proof cases
    case 1
    then show ?thesis using dmul_zero_left [of z] assms by auto
  next
    case 2
    then show ?thesis by simp
  qed
qed

lemma simple_infection_event_zero_force:
  assumes "uniform_in_unit_interval smp" and "force_infection_attribute a = Finite 0"
  shows "fst (simple_infection_event smp pm pf a rng) = a"
proof -
  obtain x where "fst (uniform_real_distribution smp (Finite 0) (Finite 1) rng) = Finite x"
    and "0 \<le> x"
    using assms(1) unfolding uniform_in_unit_interval_def by blast
  then show ?thesis
    using assms(2) not_dless_zero_product [of x]
    by (auto simp: simple_infection_event_def Let_def split: prod.splits)
qed

lemma agent_events_zero_force:
  assumes "uniform_in_unit_interval smp" and "force_infection_attribute a = Finite 0"
  shows "0 < hiv (fst (agent_events smp p pl ts a rng)) \<longleftrightarrow> 0 < hiv a"
proof -
  let ?a1 = "fst (simple_infection_event smp (male_prevalence p) (female_prevalence p) a rng)"
  let ?r1 = "snd (simple_infection_event smp (male_prevalence p) (female_prevalence p) a rng)"
  have "?a1 = a"
    using assms by (rule simple_infection_event_zero_force)
  then have "fst (agent_events smp p pl ts a rng) = age_event ts a
     \<or> (hiv a = 1 \<and> fst (agent_events smp p pl ts a rng) = age_event ts (a\<lparr>hiv := 2\<rparr>))"
    using stage_advance_event_cases [of smp pl ?a1 ?r1] by (auto simp: agent_events_unfold)
  then show ?thesis
    by (auto simp: age_event_def)
qed

section \<open>One iteration and the whole loop\<close>

lemma count_stages_Inr:
  "\<forall>x \<in> set agents. hiv (h x) \<le> 5 \<Longrightarrow> \<exists>stages. count_stages h agents counts = Inr stages"
proof (induction agents arbitrary: counts)
  case Nil
  show ?case by simp
next
  case (Cons x xs)
  then have "hiv (h x) \<le> 5" by simp
  then have "unat (hiv (h x)) < 6"
    by (simp add: word_le_nat_alt)
  then show ?case
    using Cons by (simp add: Let_def)
qed

lemma report_Inr:
  "\<forall>x \<in> set agents. hiv (h x) \<le> 5 \<Longrightarrow> \<exists>row. report date h agents = Inr row"
  using count_stages_Inr [of agents h "[0, 0, 0, 0, 0, 0]"]
  by (auto simp: report_def bind_e_def Let_def)

lemma simulate_iteration_Inr:
  assumes "simulate_iteration smp ts sd pl i (agents, h, rng, out) = Inr (agents', h', rng', out')"
  shows "agents' = fst (shuffle smp agents rng)"
    and "h' = fst (events_loop smp (calc_prevalence h agents') pl ts agents'
                    (h, snd (shuffle smp agents rng)))"
    and "rng' = snd (events_loop smp (calc_prevalence h agents') pl ts agents'
                      (h, snd (shuffle smp agents rng)))"
    and "\<exists>row. report (dadd sd (dmul ts (of_unsigned (word_of_nat i)))) h' agents' = Inr row
               \<and> out' = out @ [row]"
  using assms
  by (auto simp: simulate_iteration_def bind_e_def Let_def split: prod.splits sum.splits)

lemma simulate_iteration_rel:
  assumes refl: "\<And>a. R a a"
    and trans: "\<And>a b c. R a b \<Longrightarrow> R b c \<Longrightarrow> R a c"
    and step: "\<And>p a r. alive a \<Longrightarrow> R a (fst (agent_events smp p pl ts a r))"
    and it: "simulate_iteration smp ts sd pl i (agents, h, rng, out) = Inr (agents', h', rng', out')"
  shows "R (h x) (h' x)"
  unfolding simulate_iteration_Inr(2) [OF it]
  by (rule events_loop_rel [of R, OF refl trans step])

lemma simulate_loop_unfold:
  "simulate_loop smp ts sd pl n i st =
     (if i < n then bind_e (simulate_iteration smp ts sd pl i st) (simulate_loop smp ts sd pl n (Suc i))
      else Inr st)"
  by (rule simulate_loop.simps)

lemma simulate_loop_rel:
  assumes refl: "\<And>a. R a a"
    and trans: "\<And>a b c. R a b \<Longrightarrow> R b c \<Longrightarrow> R a c"
    and step: "\<And>p a r. alive a \<Longrightarrow> R a (fst (agent_events smp p pl ts a r))"
  shows "simulate_loop smp ts sd pl n i st = Inr st' \<Longrightarrow> R (fst (snd st) x) (fst (snd st') x)"
proof (induction "n - i" arbitrary: i st)
  case 0
  then have "st' = st"
    by (subst (asm) simulate_loop_unfold) simp
  then show ?case by (simp add: refl)
next
  case (Suc m)
  then have lt: "i < n" and m: "m = n - Suc i" by linarith+
  obtain st1 where s1: "simulate_iteration smp ts sd pl i st = Inr st1"
    and s2: "simulate_loop smp ts sd pl n (Suc i) st1 = Inr st'"
    using Suc.prems lt
    by (subst (asm) simulate_loop_unfold) (auto simp: bind_e_def split: sum.splits)
  have "R (fst (snd st) x) (fst (snd st1) x)"
    using simulate_iteration_rel [of R smp pl ts sd i "fst st" "fst (snd st)"
        "fst (snd (snd st))" "snd (snd (snd st))" "fst st1" "fst (snd st1)"
        "fst (snd (snd st1))" "snd (snd (snd st1))" x, OF refl trans step] s1
    by simp
  moreover have "R (fst (snd st1) x) (fst (snd st') x)"
    using Suc.hyps(1) [OF m s2] .
  ultimately show ?case by (rule trans)
qed

lemma bind_e_assoc: "bind_e (bind_e m f) g = bind_e m (\<lambda>x. bind_e (f x) g)"
  by (simp add: bind_e_def split: sum.splits)

text \<open>
  A run of \<open>n\<close> iterations is a run of its first \<open>k\<close> iterations followed by the
  iterations \<open>k\<close> to \<open>n\<close>: \<open>simulate_loop \<dots> k 0 st\<close> is the state of every longer run after
  \<open>k\<close> iterations.
\<close>

lemma simulate_loop_split:
  "i \<le> k \<Longrightarrow> k \<le> n \<Longrightarrow>
   simulate_loop smp ts sd pl n i st =
     bind_e (simulate_loop smp ts sd pl k i st) (simulate_loop smp ts sd pl n k)"
proof (induction "k - i" arbitrary: i st)
  case 0
  then have "i = k" by simp
  then show ?case
    by (simp add: simulate_loop_unfold [of smp ts sd pl k k] bind_e_def)
next
  case (Suc m)
  then have lt: "i < k" and m: "m = k - Suc i" and le: "Suc i \<le> k" by linarith+
  have ih: "simulate_loop smp ts sd pl n (Suc i) s =
      bind_e (simulate_loop smp ts sd pl k (Suc i) s) (simulate_loop smp ts sd pl n k)" for s
    using Suc.hyps(1) [OF m le Suc.prems(2)] .
  have "simulate_loop smp ts sd pl n i st =
      bind_e (simulate_iteration smp ts sd pl i st) (simulate_loop smp ts sd pl n (Suc i))"
    using lt Suc.prems(2) by (simp add: simulate_loop_unfold [of smp ts sd pl n i st])
  also have "\<dots> = bind_e (simulate_iteration smp ts sd pl i st)
      (\<lambda>s. bind_e (simulate_loop smp ts sd pl k (Suc i) s) (simulate_loop smp ts sd pl n k))"
    using ih by presburger
  also have "\<dots> = bind_e (bind_e (simulate_iteration smp ts sd pl i st)
      (simulate_loop smp ts sd pl k (Suc i))) (simulate_loop smp ts sd pl n k)"
    by (simp add: bind_e_assoc)
  also have "bind_e (simulate_iteration smp ts sd pl i st) (simulate_loop smp ts sd pl k (Suc i))
      = simulate_loop smp ts sd pl k i st"
    using lt by (simp add: simulate_loop_unfold [of smp ts sd pl k i st])
  finally show ?case .
qed

lemma simulate_Inr:
  assumes "simulate smp parameters st = Inr st'"
  shows "\<exists>time_step start_date prob_leave_acute_infection n.
           parameters ''TIME_STEP'' = Some time_step
           \<and> simulate_loop smp time_step start_date prob_leave_acute_infection n 0 st = Inr st'"
  using assms
  by (auto simp: simulate_def bind_e_def at_key_def split: sum.splits option.splits)

section \<open>Runs\<close>

text \<open>What the model computes on the population \<open>two_agents\<close> with the stand-in sampler.\<close>

lemmas sim_defs = simulate_iteration_def report_def calc_prevalence_def of_unsigned_def
  agent_events_unfold simple_infection_event_def stage_advance_event_def age_event_def
  initialize_agents_def init_def

lemma two_agents_run:
  "\<exists>h1 o1 h2 o2.
     simulate_loop counter_sampler (Finite 1) (Finite 2015) (Finite (1 / 2)) 1 0
       ([0, 1], two_agents, 0, []) = Inr ([1, 0], h1, 3, o1)
     \<and> simulate_loop counter_sampler (Finite 1) (Finite 2015) (Finite (1 / 2)) 2 0
       ([0, 1], two_agents, 0, []) = Inr ([0, 1], h2, 6, o2)
     \<and> map (\<lambda>x. hiv (h1 x)) [0, 1] = [0, 2]
     \<and> map (\<lambda>x. hiv (h2 x)) [0, 1] = [2, 2]
     \<and> map (\<lambda>x. age (h1 x)) [0, 1] = [Finite 17, Finite 18]
     \<and> map (\<lambda>x. age (h2 x)) [0, 1] = [Finite 18, Finite 19]"
  by (simp add: sim_defs run_defs simulate_loop.simps two_agents_def)

lemma two_agents_simulate:
  "\<exists>agents' h' rng' out'.
     simulate counter_sampler two_day_parameters ([0, 1], two_agents, 0, [])
       = Inr (agents', h', rng', out')
     \<and> map (\<lambda>x. hiv (h' x)) [0, 1] = [1, 1] \<and> length out' = 2"
  by (simp add: simulate_def to_unsigned_def two_day_parameters_def sim_defs run_defs
        simulate_loop.simps two_agents_def)


lemma simulate_loop_stage_le_2:
  fixes smp :: "'r sampler"
  assumes "simulate_loop smp ts sd pl n i (agents, h, rng, out) = Inr (agents', h', rng', out')"
  shows "hiv (h' x) = hiv (h x) \<or> hiv (h' x) \<le> 2"
proof -
  let ?R = "\<lambda>(a :: Agent) (b :: Agent). hiv b = hiv a \<or> hiv b \<le> 2"
  have "?R (fst (snd (agents, h, rng, out)) x) (fst (snd (agents', h', rng', out')) x)"
  proof (rule simulate_loop_rel [where R = ?R and smp = smp and pl = pl and ts = ts])
    show "simulate_loop smp ts sd pl n i (agents, h, rng, out) = Inr (agents', h', rng', out')"
      by (rule assms)
  next
    fix a :: Agent
    show "?R a a" by simp
  next
    fix a b c :: Agent
    assume "?R a b" and "?R b c"
    then show "?R a c" by auto
  next
    fix p and a :: Agent and r
    show "?R a (fst (agent_events smp p pl ts a r))"
      using agent_events_cases [of smp p pl ts a r] by auto
  qed
  then show ?thesis
    by (simp only: fst_conv snd_conv)
qed

text \<open>
  C3. \<open>stage_advance_event\<close> takes \<open>hiv\<close> from 1 to 2 exactly when \<open>hiv = 1\<close> and the
  uniform draw \<open>u\<close> is less than \<open>prob_leave_acute_infection\<close>; in every other case the
  agent is unchanged, and for \<open>hiv \<noteq> 1\<close> (so for 0, 2, 3, 4 and 5) no draw is made. The
  only change of \<open>hiv\<close> the event can make is from 1 to 2. Over a run, an agent whose
  \<open>hiv\<close> has changed is at a stage of at most 2: the stages 3 to 5 come from the
  initialisation only.
\<close>

theorem stage_advance_event_exact:
  fixes smp :: "'r sampler"
  shows
  "(let u = fst (uniform_real_distribution smp (Finite 0) (Finite 1) rng);
        a' = fst (stage_advance_event smp prob_leave_acute_infection a rng)
    in (hiv a = 1 \<and> dless u prob_leave_acute_infection \<longrightarrow> a' = a\<lparr>hiv := 2\<rparr>)
       \<and> (\<not> (hiv a = 1 \<and> dless u prob_leave_acute_infection) \<longrightarrow> a' = a)
       \<and> (hiv a \<noteq> 1 \<longrightarrow> stage_advance_event smp prob_leave_acute_infection a rng = (a, rng))
       \<and> (hiv a' \<noteq> hiv a \<longrightarrow> hiv a = 1 \<and> hiv a' = 2))
   \<and> (simulate_loop smp time_step start_date prob_leave_acute_infection n 0
         (agents, h, rng0, out) = Inr (agents', h', rng', out')
        \<longrightarrow> hiv (h' x) = hiv (h x) \<or> hiv (h' x) \<le> 2)"
proof (intro conjI impI)
  show "let u = fst (uniform_real_distribution smp (Finite 0) (Finite 1) rng);
        a' = fst (stage_advance_event smp prob_leave_acute_infection a rng)
    in (hiv a = 1 \<and> dless u prob_leave_acute_infection \<longrightarrow> a' = a\<lparr>hiv := 2\<rparr>)
       \<and> (\<not> (hiv a = 1 \<and> dless u prob_leave_acute_infection) \<longrightarrow> a' = a)
       \<and> (hiv a \<noteq> 1 \<longrightarrow> stage_advance_event smp prob_leave_acute_infection a rng = (a, rng))
       \<and> (hiv a' \<noteq> hiv a \<longrightarrow> hiv a = 1 \<and> hiv a' = 2)"
    by (auto simp: stage_advance_event_def Let_def split: prod.splits)
next
  assume "simulate_loop smp time_step start_date prob_leave_acute_infection n 0
         (agents, h, rng0, out) = Inr (agents', h', rng', out')"
  then show "hiv (h' x) = hiv (h x) \<or> hiv (h' x) \<le> 2"
    by (rule simulate_loop_stage_le_2)
qed

theorem stage_advance_event_exact_witness:
  "(hiv (new_Agent\<lparr>hiv := 1\<rparr>) = 1
    \<and> dless (fst (uniform_real_distribution counter_sampler (Finite 0) (Finite 1) 1))
         (Finite (1 / 2)))
   \<and> fst (stage_advance_event counter_sampler (Finite (1 / 2)) (new_Agent\<lparr>hiv := 1\<rparr>) 1)
       = new_Agent\<lparr>hiv := 1, hiv := 2\<rparr>
   \<and> \<not> (hiv (new_Agent\<lparr>hiv := 1\<rparr>) = 1
         \<and> dless (fst (uniform_real_distribution counter_sampler (Finite 0) (Finite 1) 3))
             (Finite (1 / 2)))
   \<and> fst (stage_advance_event counter_sampler (Finite (1 / 2)) (new_Agent\<lparr>hiv := 1\<rparr>) 3)
       = new_Agent\<lparr>hiv := 1\<rparr>
   \<and> hiv (new_Agent\<lparr>hiv := 2\<rparr>) \<noteq> 1
   \<and> stage_advance_event counter_sampler (Finite (1 / 2)) (new_Agent\<lparr>hiv := 2\<rparr>) 1
       = (new_Agent\<lparr>hiv := 2\<rparr>, 1)
   \<and> (\<exists>h2 o2.
        simulate_loop counter_sampler (Finite 1) (Finite 2015) (Finite (1 / 2)) 2 0
          ([0, 1], two_agents, 0, []) = Inr ([0, 1], h2, 6, o2)
        \<and> (hiv (h2 0) = hiv (two_agents 0) \<or> hiv (h2 0) \<le> 2)
        \<and> hiv (two_agents 0) = 0 \<and> hiv (h2 0) = 2)"
proof -
  have h1: "hiv (new_Agent\<lparr>hiv := 1\<rparr>) = 1
    \<and> dless (fst (uniform_real_distribution counter_sampler (Finite 0) (Finite 1) 1))
         (Finite (1 / 2))"
    by (simp add: run_defs)
  have h2: "\<not> (hiv (new_Agent\<lparr>hiv := 1\<rparr>) = 1
         \<and> dless (fst (uniform_real_distribution counter_sampler (Finite 0) (Finite 1) 3))
             (Finite (1 / 2)))"
    by (simp add: run_defs)
  have h3: "hiv (new_Agent\<lparr>hiv := 2\<rparr>) \<noteq> 1"
    by (simp add: run_defs)
  obtain s2 o2 where
    l: "simulate_loop counter_sampler (Finite 1) (Finite 2015) (Finite (1 / 2)) 2 0
          ([0, 1], two_agents, 0, []) = Inr ([0, 1], s2, 6, o2)"
    and v: "map (\<lambda>x. hiv (s2 x)) [0, 1] = [2, 2]"
    using two_agents_run by (elim exE conjE)
  have z: "hiv (two_agents 0) = 0" "hiv (s2 0) = 2"
    using v by (simp_all add: two_agents_def new_Agent_def)
  note t = stage_advance_event_exact [unfolded Let_def]
  note c = t [where smp = counter_sampler and h = two_agents and h' = s2 and x = 0,
              THEN conjunct2, THEN mp, OF l]
  have r: "\<exists>h2 o2.
        simulate_loop counter_sampler (Finite 1) (Finite 2015) (Finite (1 / 2)) 2 0
          ([0, 1], two_agents, 0, []) = Inr ([0, 1], h2, 6, o2)
        \<and> (hiv (h2 0) = hiv (two_agents 0) \<or> hiv (h2 0) \<le> 2)
        \<and> hiv (two_agents 0) = 0 \<and> hiv (h2 0) = 2"
    using l c z by (intro exI [of _ s2] exI [of _ o2] conjI) assumption+
  from h1 h2 h3 r
    t [where a = "new_Agent\<lparr>hiv := 1\<rparr>" and smp = counter_sampler and rng = 1
         and prob_leave_acute_infection = "Finite (1 / 2)", THEN conjunct1]
    t [where a = "new_Agent\<lparr>hiv := 1\<rparr>" and smp = counter_sampler and rng = 3
         and prob_leave_acute_infection = "Finite (1 / 2)", THEN conjunct1]
    t [where a = "new_Agent\<lparr>hiv := 2\<rparr>" and smp = counter_sampler and rng = 1
         and prob_leave_acute_infection = "Finite (1 / 2)", THEN conjunct1]
  show ?thesis by blast
qed

text \<open>
  C7. No event lowers \<open>hiv\<close>, and over a run the \<open>hiv\<close> of the agent at any address \<open>x\<close>
  after \<open>k\<close> iterations is at most its \<open>hiv\<close> after \<open>m \<ge> k\<close> iterations; so is its \<open>hiv\<close>
  before \<open>simulate\<close> at most that after it.
\<close>

theorem hiv_never_decreases:
  fixes smp :: "'r sampler"
  shows
  "hiv a \<le> hiv (fst (simple_infection_event smp prevalence_males prevalence_females a rng))
   \<and> hiv a \<le> hiv (fst (stage_advance_event smp prob_leave_acute_infection a rng))
   \<and> hiv (age_event time_step a) = hiv a
   \<and> (k \<le> m
        \<and> simulate_loop smp time_step start_date prob_leave_acute_infection k 0 st
            = Inr (agents_k, h_k, rng_k, out_k)
        \<and> simulate_loop smp time_step start_date prob_leave_acute_infection m 0 st
            = Inr (agents_m, h_m, rng_m, out_m)
        \<longrightarrow> hiv (h_k x) \<le> hiv (h_m x))
   \<and> (simulate smp parameters (agents, h, rng, out) = Inr (agents', h', rng', out')
        \<longrightarrow> hiv (h x) \<le> hiv (h' x))"
proof (intro conjI impI)
  show "hiv a \<le> hiv (fst (simple_infection_event smp prevalence_males prevalence_females a rng))"
    using simple_infection_event_cases [of smp prevalence_males prevalence_females a rng]
    by auto
  show "hiv a \<le> hiv (fst (stage_advance_event smp prob_leave_acute_infection a rng))"
    using stage_advance_event_cases [of smp prob_leave_acute_infection a rng] by auto
  show "hiv (age_event time_step a) = hiv a"
    by (simp add: age_event_def)
next
  let ?L = "simulate_loop smp time_step start_date prob_leave_acute_infection"
  assume a: "k \<le> m \<and> ?L k 0 st = Inr (agents_k, h_k, rng_k, out_k)
    \<and> ?L m 0 st = Inr (agents_m, h_m, rng_m, out_m)"
  then have "?L m k (agents_k, h_k, rng_k, out_k) = Inr (agents_m, h_m, rng_m, out_m)"
    using simulate_loop_split [of 0 k m smp time_step start_date prob_leave_acute_infection st]
    by (simp add: bind_e_def)
  from simulate_loop_rel [of "\<lambda>a b. hiv a \<le> hiv b", OF _ _ _ this, of x]
  show "hiv (h_k x) \<le> hiv (h_m x)"
    by (simp add: agent_events_hiv_mono)
next
  assume "simulate smp parameters (agents, h, rng, out) = Inr (agents', h', rng', out')"
  then obtain ts sd pl n where
    "simulate_loop smp ts sd pl n 0 (agents, h, rng, out) = Inr (agents', h', rng', out')"
    using simulate_Inr by blast
  from simulate_loop_rel [of "\<lambda>a b. hiv a \<le> hiv b", OF _ _ _ this, of x]
  show "hiv (h x) \<le> hiv (h' x)"
    by (simp add: agent_events_hiv_mono)
qed

theorem hiv_never_decreases_witness:
  "\<exists>h1 o1 h2 o2 agents' h' rng' out'.
     ((1 :: nat) \<le> 2
      \<and> simulate_loop counter_sampler (Finite 1) (Finite 2015) (Finite (1 / 2)) 1 0
          ([0, 1], two_agents, 0, []) = Inr ([1, 0], h1, 3, o1)
      \<and> simulate_loop counter_sampler (Finite 1) (Finite 2015) (Finite (1 / 2)) 2 0
          ([0, 1], two_agents, 0, []) = Inr ([0, 1], h2, 6, o2))
     \<and> hiv (h1 0) \<le> hiv (h2 0) \<and> hiv (h1 0) = 0 \<and> hiv (h2 0) = 2
     \<and> simulate counter_sampler two_day_parameters ([0, 1], two_agents, 0, [])
         = Inr (agents', h', rng', out')
     \<and> hiv (two_agents 0) \<le> hiv (h' 0) \<and> hiv (h' 0) = 1"
proof -
  obtain h1 o1 h2 o2 where
    r: "(1 :: nat) \<le> 2
      \<and> simulate_loop counter_sampler (Finite 1) (Finite 2015) (Finite (1 / 2)) 1 0
          ([0, 1], two_agents, 0, []) = Inr ([1, 0], h1, 3, o1)
      \<and> simulate_loop counter_sampler (Finite 1) (Finite 2015) (Finite (1 / 2)) 2 0
          ([0, 1], two_agents, 0, []) = Inr ([0, 1], h2, 6, o2)"
    and v: "hiv (h1 0) = 0" "hiv (h2 0) = 2"
    using two_agents_run by auto
  obtain agents' h' rng' out' where
    s: "simulate counter_sampler two_day_parameters ([0, 1], two_agents, 0, [])
         = Inr (agents', h', rng', out')"
    and w: "hiv (h' 0) = 1"
    using two_agents_simulate by auto
  note t = hiv_never_decreases
    [where smp = counter_sampler and k = 1 and m = 2 and x = 0 and h_k = h1 and h_m = h2
       and h = two_agents and h' = h']
  have c1: "hiv (h1 0) \<le> hiv (h2 0)"
    using t [THEN conjunct2, THEN conjunct2, THEN conjunct2, THEN conjunct1, THEN mp, OF r] .
  have c2: "hiv (two_agents 0) \<le> hiv (h' 0)"
    using t [THEN conjunct2, THEN conjunct2, THEN conjunct2, THEN conjunct2, THEN mp, OF s] .
  show ?thesis
    using r v s w c1 c2 by blast
qed

section \<open>The initial population\<close>

lemma init_Inr:
  assumes "init smp i parameters a rng = Inr (a', rng')"
  shows "alive a'"
    and "id_agent a' = i"
    and "hiv a' =
           word_of_int
             (min (fst (geometric_distribution smp (Finite (9 / 10))
                     (snd (uniform_real_distribution smp (Finite 15) (Finite 20)
                        (snd (bernoulli_distribution smp (Finite (1 / 2)) rng)))))) 5)"
    and "\<exists>mean_risk r.
           parameters (if sex a' = MALE then ''MEAN_RISK_HET_MALE_SEX''
                       else ''MEAN_RISK_HET_FEMALE_SEX'') = Some mean_risk
           \<and> force_infection_attribute a' =
               fst (beta_distribution smp (Finite 2)
                      (dsub (ddiv (Finite 2) mean_risk) (Finite 2)) r)"
  using assms
  by (auto simp: init_def bind_e_def at_key_def Let_def
           split: prod.splits option.splits sum.splits if_splits)
     (metis fst_conv)+

lemma clamped_stage_le_5:
  assumes "0 \<le> g"
  shows "(word_of_int (min g 5) :: 32 word) \<le> 5"
proof -
  have "min g 5 = 0 \<or> min g 5 = 1 \<or> min g 5 = 2 \<or> min g 5 = 3 \<or> min g 5 = 4 \<or> min g 5 = 5"
    using assms by (auto simp: min_def)
  then show ?thesis
    by (elim disjE) simp_all
qed

lemma init_hiv_le_5:
  assumes "geometric_nonnegative smp" and "init smp i parameters a rng = Inr (a', rng')"
  shows "hiv a' \<le> 5"
  using assms(1) clamped_stage_le_5
  unfolding init_Inr(3) [OF assms(2)] geometric_nonnegative_def by blast

lemma initialize_agents_from_below:
  "initialize_agents_from smp parameters m k i (h, rng) = Inr (h', rng') \<Longrightarrow> x < k \<Longrightarrow>
   h' x = h x"
proof (induction m arbitrary: k i h rng)
  case 0
  then show ?case by simp
next
  case (Suc m)
  then obtain a r1 where "init smp i parameters new_Agent rng = Inr (a, r1)"
    and rest: "initialize_agents_from smp parameters m (Suc k) (i + 1) (h(k := a), r1)
                 = Inr (h', rng')"
    by (auto simp: bind_e_def split: sum.splits)
  have "x < Suc k"
    using Suc.prems(2) by simp
  then have "h' x = (h(k := a)) x"
    by (rule Suc.IH [OF rest])
  then show ?case
    using Suc.prems(2) by simp
qed

lemma initialize_agents_from_slot:
  assumes "initialize_agents_from smp parameters m k i (h, rng) = Inr (h', rng')"
    and "k \<le> x" and "x < k + m"
  shows "\<exists>j r r'. init smp j parameters new_Agent r = Inr (h' x, r')"
  using assms
proof (induction m arbitrary: k i h rng)
  case 0
  then show ?case by simp
next
  case (Suc m)
  then obtain a r1 where a: "init smp i parameters new_Agent rng = Inr (a, r1)"
    and rest: "initialize_agents_from smp parameters m (Suc k) (i + 1) (h(k := a), r1)
                 = Inr (h', rng')"
    by (auto simp: bind_e_def split: sum.splits)
  show ?case
  proof (cases "x = k")
    case True
    then have "h' x = a"
      using initialize_agents_from_below [OF rest, of k] by simp
    then show ?thesis using a by blast
  next
    case False
    then have "Suc k \<le> x" and "x < Suc k + m"
      using Suc.prems(2,3) by simp_all
    then show ?thesis
      by (rule Suc.IH [OF rest])
  qed
qed

lemma initialize_agents_Inr:
  assumes "initialize_agents smp parameters n rng = Inr (agents, h, rng')"
  shows "agents = [0..<n]"
    and "x \<in> set agents \<Longrightarrow> \<exists>j r r'. init smp j parameters new_Agent r = Inr (h x, r')"
proof -
  have "agents = [0..<n]
      \<and> initialize_agents_from smp parameters n 0 0 (\<lambda>_. new_Agent, rng) = Inr (h, rng')"
    using assms by (auto simp: initialize_agents_def bind_e_def split: sum.splits)
  then show "agents = [0..<n]"
    and "x \<in> set agents \<Longrightarrow> \<exists>j r r'. init smp j parameters new_Agent r = Inr (h x, r')"
    using initialize_agents_from_slot [of smp parameters n 0 0 "\<lambda>_. new_Agent" rng h rng' x]
    by auto
qed

section \<open>Runs from a population within the stage bound\<close>

lemma shuffle_permutes_set:
  "shuffle_permutes smp \<Longrightarrow> set (fst (shuffle smp agents rng)) = set agents"
  unfolding shuffle_permutes_def by (metis mset_eq_setD)

lemma simulate_iteration_mset:
  assumes "shuffle_permutes smp"
    and "simulate_iteration smp ts sd pl i (agents, h, rng, out) = Inr (agents', h', rng', out')"
  shows "mset agents' = mset agents"
  using assms(1) unfolding simulate_iteration_Inr(1) [OF assms(2)] shuffle_permutes_def by blast

lemma simulate_iteration_total:
  assumes "shuffle_permutes smp" and "\<forall>x \<in> set agents. hiv (h x) \<le> 5"
  shows "\<exists>agents' h' rng' out'.
           simulate_iteration smp ts sd pl i (agents, h, rng, out) = Inr (agents', h', rng', out')"
proof -
  let ?sh = "fst (shuffle smp agents rng)"
  let ?r1 = "snd (shuffle smp agents rng)"
  let ?e = "events_loop smp (calc_prevalence h ?sh) pl ts ?sh (h, ?r1)"
  have "hiv (h x) \<le> 5 \<longrightarrow> hiv (fst ?e x) \<le> 5" for x
    by (rule events_loop_rel [of "\<lambda>a b. hiv a \<le> 5 \<longrightarrow> hiv b \<le> 5"])
       (simp_all add: agent_events_hiv_bound)
  then have "\<forall>x \<in> set ?sh. hiv (fst ?e x) \<le> 5"
    using assms shuffle_permutes_set [of smp agents rng] by blast
  then obtain row where
    "report (dadd sd (dmul ts (of_unsigned (word_of_nat i)))) (fst ?e) ?sh = Inr row"
    using report_Inr by blast
  then show ?thesis
    by (simp add: simulate_iteration_def bind_e_def Let_def case_prod_beta)
qed

lemma simulate_loop_total:
  assumes "shuffle_permutes smp"
  shows "\<forall>x \<in> set agents. hiv (h x) \<le> 5 \<Longrightarrow>
         \<exists>agents' h' rng' out'.
           simulate_loop smp ts sd pl n i (agents, h, rng, out) = Inr (agents', h', rng', out')"
proof (induction "n - i" arbitrary: i agents h rng out)
  case 0
  then show ?case
    by (simp add: simulate_loop_unfold [of smp ts sd pl n i])
next
  case (Suc m)
  then have lt: "i < n" and m: "m = n - Suc i" by linarith+
  obtain agents1 h1 rng1 out1 where
    s1: "simulate_iteration smp ts sd pl i (agents, h, rng, out) = Inr (agents1, h1, rng1, out1)"
    using simulate_iteration_total [OF assms Suc.prems] by blast
  have "set agents1 = set agents"
    using simulate_iteration_mset [OF assms s1] by (rule mset_eq_setD)
  moreover have "hiv (h x) \<le> 5 \<longrightarrow> hiv (h1 x) \<le> 5" for x
    by (rule simulate_iteration_rel [of "\<lambda>a b. hiv a \<le> 5 \<longrightarrow> hiv b \<le> 5", OF _ _ _ s1])
       (simp_all add: agent_events_hiv_bound)
  ultimately have "\<forall>x \<in> set agents1. hiv (h1 x) \<le> 5"
    using Suc.prems by blast
  then show ?case
    using Suc.hyps(1) [OF m, of agents1 h1 rng1 out1] s1 lt
    by (simp add: simulate_loop_unfold [of smp ts sd pl n i "(agents, h, rng, out)"] bind_e_def)
qed

lemma simulate_loop_mset:
  assumes "shuffle_permutes smp"
  shows "simulate_loop smp ts sd pl n i st = Inr st' \<Longrightarrow> mset (fst st') = mset (fst st)"
proof (induction "n - i" arbitrary: i st)
  case 0
  then show ?case
    by (simp add: simulate_loop_unfold [of smp ts sd pl n i st])
next
  case (Suc m)
  then have lt: "i < n" and m: "m = n - Suc i" by linarith+
  obtain st1 where s1: "simulate_iteration smp ts sd pl i st = Inr st1"
    and s2: "simulate_loop smp ts sd pl n (Suc i) st1 = Inr st'"
    using Suc.prems lt
    by (auto simp: simulate_loop_unfold [of smp ts sd pl n i st] bind_e_def split: sum.splits)
  have "mset (fst st1) = mset (fst st)"
    using simulate_iteration_mset [OF assms, of ts sd pl i "fst st" "fst (snd st)"
        "fst (snd (snd st))" "snd (snd (snd st))" "fst st1" "fst (snd st1)"
        "fst (snd (snd st1))" "snd (snd (snd st1))"] s1
    by simp
  then show ?case
    using Suc.hyps(1) [OF m s2] by simp
qed

text \<open>What \<open>initialize_agents\<close> makes of two slots with the stand-in sampler.\<close>

lemma two_slots_initialized:
  "\<exists>h. initialize_agents counter_sampler main_parameters 2 0 = Inr ([0, 1], h, 18)
       \<and> map (\<lambda>x. hiv (h x)) [0, 1] = [0, 1]
       \<and> map (\<lambda>x. sex (h x)) [0, 1] = [MALE, FEMALE]
       \<and> map (\<lambda>x. age (h x)) [0, 1] = [Finite (65 / 4), Finite (35 / 2)]"
  by (simp add: sim_defs run_defs upt_rec initialize_agents_from_numeral)

text \<open>
  C8. With a geometric draw that is never negative, \<open>initialize_agents\<close> gives every
  agent the stage \<open>min(draw, 5)\<close>, which is at most 5. From there a run of any number \<open>m\<close>
  of iterations completes (every \<open>report\<close> in it indexes its six counters in bounds),
  the vector still holds the same agents, each has a stage of at most 5, and a \<open>report\<close>
  of the state reached is in bounds.
\<close>

theorem hiv_stage_in_range:
  assumes "geometric_nonnegative smp" and "shuffle_permutes smp"
    and "initialize_agents smp parameters n rng0 = Inr (agents, h, rng1)"
  shows "(\<forall>x \<in> set agents.
            hiv (h x) \<le> 5
            \<and> (\<exists>r. hiv (h x) =
                     word_of_int (min (fst (geometric_distribution smp (Finite (9 / 10)) r)) 5)))
         \<and> (\<exists>agents' h' rng' out'.
               simulate_loop smp time_step start_date prob_leave_acute_infection m 0
                 (agents, h, rng1, out) = Inr (agents', h', rng', out')
               \<and> mset agents' = mset agents
               \<and> (\<forall>x \<in> set agents'. hiv (h' x) \<le> 5)
               \<and> (\<exists>row. report date h' agents' = Inr row))"
proof -
  have i: "hiv (h x) \<le> 5
      \<and> (\<exists>r. hiv (h x) =
               word_of_int (min (fst (geometric_distribution smp (Finite (9 / 10)) r)) 5))"
    if xin: "x \<in> set agents" for x
  proof -
    obtain j r r' where a: "init smp j parameters new_Agent r = Inr (h x, r')"
      using initialize_agents_Inr(2) [OF assms(3) xin] by blast
    show ?thesis
      using init_hiv_le_5 [OF assms(1) a] init_Inr(3) [OF a] by blast
  qed
  then have b: "\<forall>x \<in> set agents. hiv (h x) \<le> 5"
    by blast
  obtain agents' h' rng' out' where
    r: "simulate_loop smp time_step start_date prob_leave_acute_infection m 0
          (agents, h, rng1, out) = Inr (agents', h', rng', out')"
    using simulate_loop_total [OF assms(2) b] by blast
  have ms: "mset agents' = mset agents"
    using simulate_loop_mset [OF assms(2) r] by simp
  have "hiv (h x) \<le> 5 \<longrightarrow> hiv (h' x) \<le> 5" for x
    using simulate_loop_rel [of "\<lambda>a b. hiv a \<le> 5 \<longrightarrow> hiv b \<le> 5", OF _ _ _ r, of x]
    by (simp add: agent_events_hiv_bound)
  then have b': "\<forall>x \<in> set agents'. hiv (h' x) \<le> 5"
    using b mset_eq_setD [OF ms] by blast
  then have "\<exists>row. report date h' agents' = Inr row"
    by (rule report_Inr)
  then show ?thesis
    using i r ms b' by blast
qed

theorem hiv_stage_in_range_witness:
  "geometric_nonnegative counter_sampler \<and> shuffle_permutes counter_sampler
   \<and> (\<exists>h. initialize_agents counter_sampler main_parameters 2 0 = Inr ([0, 1], h, 18)
          \<and> map (\<lambda>x. hiv (h x)) [0, 1] = [0, 1]
          \<and> (\<exists>agents' h' rng' out'.
                simulate_loop counter_sampler (Finite 1) (Finite 2015) (Finite (1 / 2)) 2 0
                  ([0, 1], h, 18, []) = Inr (agents', h', rng', out')
                \<and> mset agents' = mset [0, 1]
                \<and> (\<forall>x \<in> set agents'. hiv (h' x) \<le> 5)
                \<and> (\<exists>row. report (Finite 2017) h' agents' = Inr row)))"
proof -
  obtain h where i: "initialize_agents counter_sampler main_parameters 2 0 = Inr ([0, 1], h, 18)"
    and v: "map (\<lambda>x. hiv (h x)) [0, 1] = [0, 1]"
    using two_slots_initialized by (elim exE conjE)
  note t = hiv_stage_in_range
    [OF counter_sampler_geometric_nonnegative counter_sampler_shuffle_permutes i,
     of "Finite 1" "Finite 2015" "Finite (1 / 2)" 2 "[]" "Finite 2017"]
  have "initialize_agents counter_sampler main_parameters 2 0 = Inr ([0, 1], h, 18)
      \<and> map (\<lambda>x. hiv (h x)) [0, 1] = [0, 1]
      \<and> (\<exists>agents' h' rng' out'.
            simulate_loop counter_sampler (Finite 1) (Finite 2015) (Finite (1 / 2)) 2 0
              ([0, 1], h, 18, []) = Inr (agents', h', rng', out')
            \<and> mset agents' = mset [0, 1]
            \<and> (\<forall>x \<in> set agents'. hiv (h' x) \<le> 5)
            \<and> (\<exists>row. report (Finite 2017) h' agents' = Inr row))"
    using i v t [THEN conjunct2] by (intro conjI) assumption+
  then show ?thesis
    using counter_sampler_geometric_nonnegative counter_sampler_shuffle_permutes
    by (intro conjI exI [of _ h]) (elim conjE, assumption)+
qed

section \<open>Ages\<close>




section \<open>Runs without risk of infection\<close>

lemma zero_risk_run:
  "\<exists>h h2 o2.
     initialize_agents counter_sampler zero_risk_parameters 2 0 = Inr ([0, 1], h, 18)
     \<and> simulate_loop counter_sampler (Finite 1) (Finite 2015) (Finite (1 / 2)) 2 0
         ([0, 1], h, 18, []) = Inr ([0, 1], h2, 24, o2)
     \<and> map (\<lambda>x. hiv (h x)) [0, 1] = [0, 1]
     \<and> map (\<lambda>x. hiv (h2 x)) [0, 1] = [0, 1]
     \<and> map (\<lambda>x. force_infection_attribute (h x)) [0, 1] = [Finite 0, Finite 0]"
  by (simp add: sim_defs run_defs upt_rec initialize_agents_from_numeral simulate_loop.simps
        zero_risk_parameters_def)

lemma zero_risk_parameters_keys:
  "zero_risk_parameters ''MEAN_RISK_HET_MALE_SEX'' = Some (Finite 0)"
  "zero_risk_parameters ''MEAN_RISK_HET_FEMALE_SEX'' = Some (Finite 0)"
  by (simp_all add: zero_risk_parameters_def)

lemma simulate_loop_zero_force:
  fixes smp :: "'r sampler"
  assumes "uniform_in_unit_interval smp"
   and "simulate_loop smp ts sd pl m i (agents, h, rng1, out) = Inr (agents', h', rng', out')"
   and "force_infection_attribute (h x) = Finite 0"
  shows "force_infection_attribute (h' x) = Finite 0 \<and> (0 < hiv (h' x) \<longleftrightarrow> 0 < hiv (h x))"
proof -
  let ?R = "\<lambda>(a :: Agent) (b :: Agent). force_infection_attribute a = Finite 0 \<longrightarrow>
              force_infection_attribute b = Finite 0 \<and> (0 < hiv b \<longleftrightarrow> 0 < hiv a)"
  have "?R (fst (snd (agents, h, rng1, out)) x) (fst (snd (agents', h', rng', out')) x)"
  proof (rule simulate_loop_rel [where R = ?R and smp = smp and pl = pl and ts = ts])
    show "simulate_loop smp ts sd pl m i (agents, h, rng1, out) = Inr (agents', h', rng', out')"
      by (rule assms(2))
  next
    fix a :: Agent
    show "?R a a" by simp
  next
    fix a b c :: Agent
    assume "?R a b" and "?R b c"
    then show "?R a c" by blast
  next
    fix p and a :: Agent and r
    assume "alive a"
    show "?R a (fst (agent_events smp p pl ts a r))"
      using agent_events_zero_force [OF assms(1), of a p pl ts r]
      by (simp add: agent_events_force)
  qed
  then show ?thesis
    using assms(3) by (simp only: fst_conv snd_conv)
qed


text \<open>
  C6. With both mean risks 0, in a run from an initialised population the number of
  agents of the vector with \<open>hiv > 0\<close> is after any number \<open>m\<close> of iterations at most what
  it was after the initialisation. The sampler is taken to meet its contracts: a Beta
  draw with mean 0 is 0, a uniform draw is not negative, the shuffle permutes.
\<close>

theorem zero_risk_infected_count_never_increases:
  assumes "uniform_in_unit_interval smp" and "beta_in_unit_interval smp"
    and "shuffle_permutes smp"
    and "parameters ''MEAN_RISK_HET_MALE_SEX'' = Some (Finite 0)"
    and "parameters ''MEAN_RISK_HET_FEMALE_SEX'' = Some (Finite 0)"
    and "initialize_agents smp parameters n rng0 = Inr (agents, h, rng1)"
    and "simulate_loop smp time_step start_date prob_leave_acute_infection m 0
           (agents, h, rng1, out) = Inr (agents', h', rng', out')"
  shows "length (filter (\<lambda>x. 0 < hiv (h' x)) agents')
           \<le> length (filter (\<lambda>x. 0 < hiv (h x)) agents)"
proof -
  have inf: "dsub (ddiv (Finite 2) (Finite 0)) (Finite 2) = PlusInf"
    by (simp add: dsub_def)
  have f: "force_infection_attribute (h x) = Finite 0" if xin: "x \<in> set agents" for x
  proof -
    obtain j r r' where a: "init smp j parameters new_Agent r = Inr (h x, r')"
      using initialize_agents_Inr(2) [OF assms(6) xin] by blast
    obtain mean_risk r2 where
      k: "parameters (if sex (h x) = MALE then ''MEAN_RISK_HET_MALE_SEX''
                      else ''MEAN_RISK_HET_FEMALE_SEX'') = Some mean_risk"
      and v: "force_infection_attribute (h x) =
          fst (beta_distribution smp (Finite 2) (dsub (ddiv (Finite 2) mean_risk) (Finite 2)) r2)"
      using init_Inr(4) [OF a] by blast
    have "mean_risk = Finite 0"
      using k assms(4,5) by (simp split: if_splits)
    then have "force_infection_attribute (h x) = fst (beta_distribution smp (Finite 2) PlusInf r2)"
      using v inf by simp
    moreover obtain y where "fst (beta_distribution smp (Finite 2) PlusInf r2) = Finite y"
      and "y = 0"
      using assms(2) unfolding beta_in_unit_interval_def by blast
    ultimately show ?thesis
      by simp
  qed
  have eq: "0 < hiv (h' x) \<longleftrightarrow> 0 < hiv (h x)" if xin: "x \<in> set agents" for x
    using simulate_loop_zero_force [OF assms(1) assms(7) f [OF xin]] by simp
  have "mset agents' = mset agents"
    using simulate_loop_mset [OF assms(3) assms(7)] by simp
  then have "length (filter (\<lambda>x. 0 < hiv (h' x)) agents')
      = length (filter (\<lambda>x. 0 < hiv (h' x)) agents)"
    by (rule length_filter_mset)
  also have "filter (\<lambda>x. 0 < hiv (h' x)) agents = filter (\<lambda>x. 0 < hiv (h x)) agents"
    using eq by (intro filter_cong) auto
  finally show ?thesis by simp
qed

theorem zero_risk_infected_count_never_increases_witness:
  "uniform_in_unit_interval counter_sampler \<and> beta_in_unit_interval counter_sampler
   \<and> shuffle_permutes counter_sampler
   \<and> zero_risk_parameters ''MEAN_RISK_HET_MALE_SEX'' = Some (Finite 0)
   \<and> zero_risk_parameters ''MEAN_RISK_HET_FEMALE_SEX'' = Some (Finite 0)
   \<and> (\<exists>h h2 o2.
        initialize_agents counter_sampler zero_risk_parameters 2 0 = Inr ([0, 1], h, 18)
        \<and> simulate_loop counter_sampler (Finite 1) (Finite 2015) (Finite (1 / 2)) 2 0
            ([0, 1], h, 18, []) = Inr ([0, 1], h2, 24, o2)
        \<and> length (filter (\<lambda>x. 0 < hiv (h2 x)) [0, 1])
            \<le> length (filter (\<lambda>x. 0 < hiv (h x)) [0, 1])
        \<and> map (\<lambda>x. hiv (h x)) [0, 1] = [0, 1]
        \<and> map (\<lambda>x. hiv (h2 x)) [0, 1] = [0, 1])"
proof -
  obtain h h2 o2 where
    i: "initialize_agents counter_sampler zero_risk_parameters 2 0 = Inr ([0, 1], h, 18)"
    and l: "simulate_loop counter_sampler (Finite 1) (Finite 2015) (Finite (1 / 2)) 2 0
         ([0, 1], h, 18, []) = Inr ([0, 1], h2, 24, o2)"
    and v: "map (\<lambda>x. hiv (h x)) [0, 1] = [0, 1]" "map (\<lambda>x. hiv (h2 x)) [0, 1] = [0, 1]"
    using zero_risk_run by (elim exE conjE)
  note t = zero_risk_infected_count_never_increases
    [OF counter_sampler_uniform_in_unit_interval counter_sampler_beta_in_unit_interval
        counter_sampler_shuffle_permutes zero_risk_parameters_keys i l]
  have "initialize_agents counter_sampler zero_risk_parameters 2 0 = Inr ([0, 1], h, 18)
        \<and> simulate_loop counter_sampler (Finite 1) (Finite 2015) (Finite (1 / 2)) 2 0
            ([0, 1], h, 18, []) = Inr ([0, 1], h2, 24, o2)
        \<and> length (filter (\<lambda>x. 0 < hiv (h2 x)) [0, 1])
            \<le> length (filter (\<lambda>x. 0 < hiv (h x)) [0, 1])
        \<and> map (\<lambda>x. hiv (h x)) [0, 1] = [0, 1]
        \<and> map (\<lambda>x. hiv (h2 x)) [0, 1] = [0, 1]"
    using i l t v by (intro conjI) assumption+
  then have "\<exists>h h2 o2.
        initialize_agents counter_sampler zero_risk_parameters 2 0 = Inr ([0, 1], h, 18)
        \<and> simulate_loop counter_sampler (Finite 1) (Finite 2015) (Finite (1 / 2)) 2 0
            ([0, 1], h, 18, []) = Inr ([0, 1], h2, 24, o2)
        \<and> length (filter (\<lambda>x. 0 < hiv (h2 x)) [0, 1])
            \<le> length (filter (\<lambda>x. 0 < hiv (h x)) [0, 1])
        \<and> map (\<lambda>x. hiv (h x)) [0, 1] = [0, 1]
        \<and> map (\<lambda>x. hiv (h2 x)) [0, 1] = [0, 1]"
    by (intro exI) assumption
  then show ?thesis
    using counter_sampler_uniform_in_unit_interval counter_sampler_beta_in_unit_interval
      counter_sampler_shuffle_permutes zero_risk_parameters_keys
    by (intro conjI) assumption+
qed

section \<open>The order of an iteration\<close>

lemma report_Inr_by_sex:
  "report date h agents = Inr row \<Longrightarrow> row_by_sex row = calc_prevalence h agents"
  by (auto simp: report_def bind_e_def Let_def split: sum.splits)

lemma two_agents_iteration:
  "\<exists>h' out'.
     simulate_iteration counter_sampler (Finite 1) (Finite 2015) (Finite (1 / 2)) 0
       ([1, 0], two_agents, 3, []) = Inr ([0, 1], h', 7, out')
     \<and> map (\<lambda>x. hiv (h' x)) [0, 1] = [2, 1]
     \<and> map (\<lambda>x. age (h' x)) [0, 1] = [Finite 17, Finite 18]
     \<and> male_prevalence (row_by_sex (last out')) = Finite 1"
  by (simp add: sim_defs run_defs two_agents_def)

text \<open>
  C4, as the claim has it: in every iteration the prevalence aggregate is computed
  exactly once, from the state at the head of the iteration. In the iteration
  \<open>infecting_iteration\<close> the aggregate of the store at the head has a male prevalence of
  0, and the line that \<open>report\<close> writes in the same iteration carries the aggregate of the
  store after the events, with a male prevalence of 1: \<open>report\<close> calls \<open>calc_prevalence\<close>
  again.
\<close>

theorem report_prevalence_is_recomputed:
  "\<not> isl infecting_iteration
   \<and> fst (projr infecting_iteration) = [0, 1]
   \<and> male_prevalence (calc_prevalence two_agents [0, 1]) = Finite 0
   \<and> row_by_sex (last (snd (snd (snd (projr infecting_iteration)))))
       = calc_prevalence (fst (snd (projr infecting_iteration))) [0, 1]
   \<and> male_prevalence (row_by_sex (last (snd (snd (snd (projr infecting_iteration))))))
       = Finite 1"
  by (simp add: infecting_iteration_def sim_defs run_defs two_agents_def)

text \<open>
  C4, as the code has it. In an iteration of \<open>simulate\<close> on a vector of distinct agents,
  the prevalence \<open>p\<close> that the events use is computed from the store as it is at the head
  of the iteration (on the shuffled vector, which gives what the vector before the
  shuffle gives); every alive agent of the vector ends the iteration as its own state at
  the head of the iteration taken through the infection event with the two prevalences
  of \<open>p\<close>, then the stage-advance event, then the age event, the generator being in the
  state the agents before it left; agents that are not alive or not in the vector are
  unchanged. The line that \<open>report\<close> appends carries a second aggregate, computed from
  the store after the events.
\<close>

theorem simulate_iteration_prevalence_then_events:
  assumes "simulate_iteration smp time_step start_date prob_leave_acute_infection i
             (agents, h, rng, out) = Inr (agents', h', rng', out')"
    and "distinct agents" and "shuffle_permutes smp"
  shows "agents' = fst (shuffle smp agents rng)
    \<and> (let p = calc_prevalence h agents';
            before = (\<lambda>k. snd (events_loop smp p prob_leave_acute_infection time_step
                                   (take k agents') (h, snd (shuffle smp agents rng))));
            infected = (\<lambda>k. simple_infection_event smp (male_prevalence p) (female_prevalence p)
                                 (h (agents' ! k)) (before k))
        in p = calc_prevalence h agents
           \<and> (\<forall>k < length agents'.
                 h' (agents' ! k) =
                   (if alive (h (agents' ! k))
                    then age_event time_step
                           (fst (stage_advance_event smp prob_leave_acute_infection
                                   (fst (infected k)) (snd (infected k))))
                    else h (agents' ! k)))
           \<and> (\<forall>x. x \<notin> set agents \<longrightarrow> h' x = h x)
           \<and> (\<exists>row. out' = out @ [row] \<and> row_by_sex row = calc_prevalence h' agents'))"
proof -
  let ?sh = "fst (shuffle smp agents rng)"
  let ?r1 = "snd (shuffle smp agents rng)"
  let ?p = "calc_prevalence h ?sh"
  let ?E = "events_loop smp ?p prob_leave_acute_infection time_step"
  have a: "agents' = ?sh"
    by (rule simulate_iteration_Inr(1) [OF assms(1)])
  have h': "h' = fst (?E ?sh (h, ?r1))"
    using simulate_iteration_Inr(2) [OF assms(1)] a by simp
  have ms: "mset ?sh = mset agents"
    using assms(3) unfolding shuffle_permutes_def by simp
  have d: "distinct ?sh"
    using assms(2) ms by (metis mset_eq_imp_distinct_iff)
  have p: "?p = calc_prevalence h agents"
    using ms by (rule calc_prevalence_mset)
  have ev: "h' (?sh ! k) =
      (if alive (h (?sh ! k))
       then age_event time_step
              (fst (stage_advance_event smp prob_leave_acute_infection
                 (fst (simple_infection_event smp (male_prevalence ?p) (female_prevalence ?p)
                         (h (?sh ! k)) (snd (?E (take k ?sh) (h, ?r1)))))
                 (snd (simple_infection_event smp (male_prevalence ?p) (female_prevalence ?p)
                         (h (?sh ! k)) (snd (?E (take k ?sh) (h, ?r1)))))))
       else h (?sh ! k))" if k: "k < length ?sh" for k
    unfolding h'
    using events_loop_nth [OF d k, of smp ?p prob_leave_acute_infection time_step h ?r1]
    by (simp add: agent_events_unfold)
  have out: "h' x = h x" if "x \<notin> set agents" for x
  proof -
    have "x \<notin> set ?sh"
      using that mset_eq_setD [OF ms] by simp
    then show ?thesis
      unfolding h' by (rule events_loop_notin)
  qed
  obtain row where "report (dadd start_date (dmul time_step (of_unsigned (word_of_nat i)))) h' agents'
      = Inr row" and o: "out' = out @ [row]"
    using simulate_iteration_Inr(4) [OF assms(1)] by blast
  then have "row_by_sex row = calc_prevalence h' agents'"
    using report_Inr_by_sex by blast
  then have r: "\<exists>row. out' = out @ [row] \<and> row_by_sex row = calc_prevalence h' agents'"
    using o by blast
  show ?thesis
    unfolding Let_def a [symmetric]
    using a p ev out r by (simp del: ex_simps)
qed


theorem simulate_iteration_prevalence_then_events_witness:
  "distinct [1, 0 :: nat] \<and> shuffle_permutes counter_sampler
   \<and> (\<exists>h' out'.
        simulate_iteration counter_sampler (Finite 1) (Finite 2015) (Finite (1 / 2)) 0
          ([1, 0], two_agents, 3, []) = Inr ([0, 1], h', 7, out')
        \<and> [0, 1] = fst (shuffle counter_sampler [1, 0] 3)
        \<and> calc_prevalence two_agents [0, 1] = calc_prevalence two_agents [1, 0]
        \<and> h' 0 =
            age_event (Finite 1)
              (fst (stage_advance_event counter_sampler (Finite (1 / 2))
                 (fst (simple_infection_event counter_sampler (Finite 0) (Finite 1)
                         (two_agents 0) 4))
                 (snd (simple_infection_event counter_sampler (Finite 0) (Finite 1)
                         (two_agents 0) 4))))
        \<and> hiv (two_agents 0) = 0 \<and> hiv (h' 0) = 2
        \<and> (\<exists>row. out' = [] @ [row] \<and> row_by_sex row = calc_prevalence h' [0, 1]))"
proof -
  obtain h' out' where
    it: "simulate_iteration counter_sampler (Finite 1) (Finite 2015) (Finite (1 / 2)) 0
       ([1, 0], two_agents, 3, []) = Inr ([0, 1], h', 7, out')"
    and v: "map (\<lambda>x. hiv (h' x)) [0, 1] = [2, 1]"
    using two_agents_iteration by (elim exE conjE)
  have d: "distinct [1, 0 :: nat]"
    by simp
  note t = simulate_iteration_prevalence_then_events
             [OF it d counter_sampler_shuffle_permutes, unfolded Let_def]
  note c1 = t [THEN conjunct1]
  note c2 = t [THEN conjunct2, THEN conjunct1]
  note c3 = t [THEN conjunct2, THEN conjunct2, THEN conjunct1, rule_format, of 0]
  note c4 = t [THEN conjunct2, THEN conjunct2, THEN conjunct2, THEN conjunct2]
  have p: "male_prevalence (calc_prevalence two_agents [0, Suc 0]) = Finite 0"
    "female_prevalence (calc_prevalence two_agents [0, Suc 0]) = Finite 1"
    by (simp_all add: calc_prevalence_def of_unsigned_def two_agents_def new_Agent_def Let_def)
  have b: "snd (shuffle counter_sampler [Suc 0, 0] 3) = 4"
    by (simp add: counter_sampler_def)
  have al: "alive (two_agents 0)"
    by (simp add: two_agents_def new_Agent_def)
  have e: "h' 0 =
      age_event (Finite 1)
        (fst (stage_advance_event counter_sampler (Finite (1 / 2))
           (fst (simple_infection_event counter_sampler (Finite 0) (Finite 1) (two_agents 0) 4))
           (snd (simple_infection_event counter_sampler (Finite 0) (Finite 1)
                   (two_agents 0) 4))))"
    using c3 al by (simp add: p b)
  have z: "hiv (two_agents 0) = 0" "hiv (h' 0) = 2"
    using v by (simp_all add: two_agents_def new_Agent_def)
  have "simulate_iteration counter_sampler (Finite 1) (Finite 2015) (Finite (1 / 2)) 0
          ([1, 0], two_agents, 3, []) = Inr ([0, 1], h', 7, out')
        \<and> [0, 1] = fst (shuffle counter_sampler [1, 0] 3)
        \<and> calc_prevalence two_agents [0, 1] = calc_prevalence two_agents [1, 0]
        \<and> h' 0 =
            age_event (Finite 1)
              (fst (stage_advance_event counter_sampler (Finite (1 / 2))
                 (fst (simple_infection_event counter_sampler (Finite 0) (Finite 1)
                         (two_agents 0) 4))
                 (snd (simple_infection_event counter_sampler (Finite 0) (Finite 1)
                         (two_agents 0) 4))))
        \<and> hiv (two_agents 0) = 0 \<and> hiv (h' 0) = 2
        \<and> (\<exists>row. out' = [] @ [row] \<and> row_by_sex row = calc_prevalence h' [0, 1])"
    using it c1 c2 e z c4 by (intro conjI) assumption+
  then have "\<exists>h' out'.
        simulate_iteration counter_sampler (Finite 1) (Finite 2015) (Finite (1 / 2)) 0
          ([1, 0], two_agents, 3, []) = Inr ([0, 1], h', 7, out')
        \<and> [0, 1] = fst (shuffle counter_sampler [1, 0] 3)
        \<and> calc_prevalence two_agents [0, 1] = calc_prevalence two_agents [1, 0]
        \<and> h' 0 =
            age_event (Finite 1)
              (fst (stage_advance_event counter_sampler (Finite (1 / 2))
                 (fst (simple_infection_event counter_sampler (Finite 0) (Finite 1)
                         (two_agents 0) 4))
                 (snd (simple_infection_event counter_sampler (Finite 0) (Finite 1)
                         (two_agents 0) 4))))
        \<and> hiv (two_agents 0) = 0 \<and> hiv (h' 0) = 2
        \<and> (\<exists>row. out' = [] @ [row] \<and> row_by_sex row = calc_prevalence h' [0, 1])"
    by (intro exI) assumption
  then show ?thesis
    using d counter_sampler_shuffle_permutes by (intro conjI) assumption+
qed

end
